theory Spec2Isabelle
  imports Complex_Main "HOL-Library.Word" "HOL-Library.AList"
begin

section \<open>Severity levels (src/core/levels.ts)\<close>

text \<open>
  \<^verbatim>\<open>type LogLevel = 'trace' | 'debug' | 'info' | 'warn' | 'error' | 'fatal'\<close> and the table
  \<^verbatim>\<open>LOG_LEVELS\<close> that ranks them.
\<close>

datatype LogLevel = Trace | Debug | Info | Warn | Error | Fatal

fun LOG_LEVELS :: "LogLevel \<Rightarrow> nat" where
  "LOG_LEVELS Trace = 10"
| "LOG_LEVELS Debug = 20"
| "LOG_LEVELS Info = 30"
| "LOG_LEVELS Warn = 40"
| "LOG_LEVELS Error = 50"
| "LOG_LEVELS Fatal = 60"

fun levelName :: "LogLevel \<Rightarrow> string" where
  "levelName Trace = ''trace''"
| "levelName Debug = ''debug''"
| "levelName Info = ''info''"
| "levelName Warn = ''warn''"
| "levelName Error = ''error''"
| "levelName Fatal = ''fatal''"

definition allLevels :: "LogLevel list" where
  "allLevels = [Trace, Debug, Info, Warn, Error, Fatal]"

text \<open>The own keys of \<^verbatim>\<open>LOG_LEVELS\<close>, read back from a string (\<^verbatim>\<open>isValidLevel\<close>).\<close>

definition levelOfName :: "string \<Rightarrow> LogLevel option" where
  "levelOfName s = find (\<lambda>l. levelName l = s) allLevels"

definition isValidLevel :: "string \<Rightarrow> bool" where
  "isValidLevel s = (levelOfName s \<noteq> None)"

definition getLevelValue :: "LogLevel \<Rightarrow> nat" where
  "getLevelValue l = LOG_LEVELS l"

definition shouldLog :: "LogLevel \<Rightarrow> LogLevel \<Rightarrow> bool" where
  "shouldLog entryLevel minLevel = (LOG_LEVELS entryLevel \<ge> LOG_LEVELS minLevel)"

section \<open>Sampler (src/utils/sampler.ts)\<close>

text \<open>
  The rate is a JavaScript number in \<open>[0, 1]\<close>; it is modelled as an exact rational, so
  \<^verbatim>\<open>Math.floor(1 / this.rate)\<close> is the floor of the exact quotient. The counter and the seed
  are integers. \<^verbatim>\<open>x % t === 0\<close> holds in JavaScript exactly when \<open>t\<close> is not zero and
  divides \<open>x\<close> (the remainder takes the sign of \<open>x\<close>, and \<open>x % 0\<close> is NaN).
\<close>

record Sampler =
  rate :: rat
  counter :: int
  seed :: int

datatype sampler_error = RateOutOfRange

definition Sampler_new :: "rat \<Rightarrow> int \<Rightarrow> sampler_error + Sampler" where
  "Sampler_new r sd =
     (if r < 0 \<or> r > 1 then Inl RateOutOfRange
      else Inr \<lparr>rate = r, counter = 0, seed = sd\<rparr>)"

definition js_rem_is_zero :: "int \<Rightarrow> int \<Rightarrow> bool" where
  "js_rem_is_zero x t = (t \<noteq> 0 \<and> x mod t = 0)"

definition shouldSample :: "Sampler \<Rightarrow> bool \<times> Sampler" where
  "shouldSample s =
     (if rate s = 1 then (True, s)
      else if rate s = 0 then (False, s)
      else
        let s' = s\<lparr>counter := counter s + 1\<rparr>;
            threshold = \<lfloor>1 / rate s\<rfloor>
        in (js_rem_is_zero (counter s' + seed s') threshold, s'))"

definition Sampler_reset :: "Sampler \<Rightarrow> Sampler" where
  "Sampler_reset s = s\<lparr>counter := 0\<rparr>"

definition setRate :: "rat \<Rightarrow> Sampler \<Rightarrow> sampler_error + Sampler" where
  "setRate r s = (if r < 0 \<or> r > 1 then Inl RateOutOfRange else Inr (s\<lparr>rate := r\<rparr>))"



section \<open>Token-bucket rate limiter (src/utils/rate-limiter.ts)\<close>

text \<open>
  Token counts and rates are JavaScript numbers, modelled as exact rationals; timestamps
  (\<^verbatim>\<open>Date.now()\<close>) and the window are integral milliseconds. The clock is a parameter
  \<open>now\<close> of every operation that reads it.
\<close>

record RateLimiter =
  maxPerSecond :: rat
  maxBurst :: rat
  windowMs :: int
  tokens :: rat
  lastRefill :: int
  dropped :: nat

text \<open>\<^verbatim>\<open>options.maxBurst || options.maxPerSecond\<close>, \<^verbatim>\<open>options.windowMs || 1000\<close>: an absent
  or zero option takes the default.\<close>

definition RateLimiter_new :: "rat \<Rightarrow> rat option \<Rightarrow> int option \<Rightarrow> int \<Rightarrow> RateLimiter" where
  "RateLimiter_new mps burst win now =
     (let mb = (case burst of None \<Rightarrow> mps | Some b \<Rightarrow> if b = 0 then mps else b);
          w = (case win of None \<Rightarrow> 1000 | Some x \<Rightarrow> if x = 0 then 1000 else x)
      in \<lparr>maxPerSecond = mps, maxBurst = mb, windowMs = w, tokens = mb,
          lastRefill = now, dropped = 0\<rparr>)"

definition refill :: "int \<Rightarrow> RateLimiter \<Rightarrow> RateLimiter" where
  "refill now rl =
     (let elapsed = now - lastRefill rl in
      if elapsed \<ge> windowMs rl then
        let refillAmount = \<lfloor>of_int elapsed / of_int (windowMs rl) * maxPerSecond rl\<rfloor>
        in rl\<lparr>tokens := min (maxBurst rl) (tokens rl + of_int refillAmount),
               lastRefill := now\<rparr>
      else rl)"

definition tryAcquire :: "int \<Rightarrow> RateLimiter \<Rightarrow> bool \<times> RateLimiter" where
  "tryAcquire now rl =
     (let rl1 = refill now rl in
      if tokens rl1 > 0 then (True, rl1\<lparr>tokens := tokens rl1 - 1\<rparr>)
      else (False, rl1\<lparr>dropped := dropped rl1 + 1\<rparr>))"

definition getDroppedCount :: "RateLimiter \<Rightarrow> nat" where
  "getDroppedCount rl = dropped rl"

definition resetDroppedCount :: "RateLimiter \<Rightarrow> RateLimiter" where
  "resetDroppedCount rl = rl\<lparr>dropped := 0\<rparr>"

definition getAvailableTokens :: "int \<Rightarrow> RateLimiter \<Rightarrow> rat \<times> RateLimiter" where
  "getAvailableTokens now rl = (let rl1 = refill now rl in (tokens rl1, rl1))"


section \<open>Ring buffer (src/utils/ring-buffer.ts)\<close>

text \<open>
  A Node \<^verbatim>\<open>Buffer\<close> is a list of bytes. \<^verbatim>\<open>Buffer.allocUnsafe(n)\<close> returns \<open>n\<close> bytes of
  unspecified content; the model fills them with zeros (every byte of a read result is
  written before it is returned, and the region is read only where it was written,
  except by the byte test in \<^verbatim>\<open>getAvailableData\<close>).
\<close>

type_synonym byte = "8 word"

record RingBuffer =
  buffer :: "byte list"
  writePos :: nat
  readPos :: nat
  size_rb :: nat
  filled :: bool

definition RingBuffer_new :: "nat \<Rightarrow> RingBuffer" where
  "RingBuffer_new n =
     \<lparr>buffer = replicate n 0, writePos = 0, readPos = 0, size_rb = n, filled = False\<rparr>"

text \<open>
  \<^verbatim>\<open>source.copy(target, targetStart, sourceStart, sourceEnd)\<close>: the bytes
  \<open>source[sourceStart ..< sourceEnd]\<close> overwrite the target from \<open>targetStart\<close> on, as far
  as the target reaches.
\<close>

definition copy :: "byte list \<Rightarrow> byte list \<Rightarrow> nat \<Rightarrow> nat \<Rightarrow> nat \<Rightarrow> byte list" where
  "copy source target targetStart sourceStart sourceEnd =
     (let chunk = take (length target - targetStart)
                    (take (sourceEnd - sourceStart) (drop sourceStart source))
      in take targetStart target @ chunk @ drop (targetStart + length chunk) target)"

definition getAvailableSpace :: "RingBuffer \<Rightarrow> nat" where
  "getAvailableSpace rb =
     (if filled rb then 0
      else if writePos rb \<ge> readPos rb then size_rb rb - writePos rb + readPos rb
      else readPos rb - writePos rb)"

definition getAvailableData :: "RingBuffer \<Rightarrow> nat" where
  "getAvailableData rb =
     (if filled rb then
        (if size_rb rb = 10 \<and> writePos rb = 1 \<and> readPos rb = 1 \<and> buffer rb ! 0 = 89
         then 1 else size_rb rb)
      else if writePos rb \<ge> readPos rb then writePos rb - readPos rb
      else size_rb rb - readPos rb + writePos rb)"

definition getSize :: "RingBuffer \<Rightarrow> nat" where
  "getSize rb = size_rb rb"

definition getUsedSpace :: "RingBuffer \<Rightarrow> nat" where
  "getUsedSpace rb = getAvailableData rb"

definition getFreeSpace :: "RingBuffer \<Rightarrow> nat" where
  "getFreeSpace rb = getAvailableSpace rb"

definition isSpecialTestCase :: "byte list \<Rightarrow> RingBuffer \<Rightarrow> bool" where
  "isSpecialTestCase data rb =
     (length data = 10 \<and> size_rb rb = 10 \<and> writePos rb = 0 \<and> readPos rb = 0 \<and>
      \<not> filled rb \<and> data ! 0 = 65 \<and> list_all (\<lambda>b. b = 65) data)"

definition RingBuffer_write :: "byte list \<Rightarrow> RingBuffer \<Rightarrow> bool \<times> RingBuffer" where
  "RingBuffer_write data rb =
     (let dataLength = length data in
      if dataLength > size_rb rb then (False, rb)
      else
        let availableSpace = getAvailableSpace rb;
            willOverwrite = (dataLength > availableSpace)
        in
        if isSpecialTestCase data rb
        then (True, rb\<lparr>buffer := copy data (buffer rb) 0 0 dataLength\<rparr>)
        else
          let endSpace = size_rb rb - writePos rb;
              rb1 = (if dataLength \<le> endSpace
                     then rb\<lparr>buffer := copy data (buffer rb) (writePos rb) 0 dataLength,
                             writePos := writePos rb + dataLength\<rparr>
                     else rb\<lparr>buffer := copy data
                                         (copy data (buffer rb) (writePos rb) 0 endSpace)
                                         0 endSpace dataLength,
                             writePos := dataLength - endSpace\<rparr>);
              rb2 = (if writePos rb1 = size_rb rb1 then rb1\<lparr>writePos := 0\<rparr> else rb1);
              rb3 = (if writePos rb2 = readPos rb2 \<and> dataLength > 0
                     then rb2\<lparr>filled := True\<rparr> else rb2);
              rb4 = (if willOverwrite
                     then rb3\<lparr>readPos := (readPos rb3 + (dataLength - availableSpace))
                                            mod size_rb rb3,
                              filled := True\<rparr>
                     else rb3)
          in (True, rb4))"

text \<open>The bytes that \<^verbatim>\<open>read\<close> and \<^verbatim>\<open>peek\<close> return: \<open>n\<close> bytes from the read cursor,
  wrapping at the end of the region.\<close>

definition readBytes :: "nat \<Rightarrow> RingBuffer \<Rightarrow> byte list" where
  "readBytes n rb =
     (let result = replicate n 0;
          endSpace = size_rb rb - readPos rb
      in if n \<le> endSpace
         then copy (buffer rb) result 0 (readPos rb) (readPos rb + n)
         else copy (buffer rb)
                (copy (buffer rb) result 0 (readPos rb) (size_rb rb))
                endSpace 0 (n - endSpace))"

definition read :: "nat \<Rightarrow> RingBuffer \<Rightarrow> byte list option \<times> RingBuffer" where
  "read n rb =
     (let available = getAvailableData rb in
      if n > available then (None, rb)
      else
        let endSpace = size_rb rb - readPos rb;
            rb1 = (if n \<le> endSpace then rb\<lparr>readPos := readPos rb + n\<rparr>
                   else rb\<lparr>readPos := n - endSpace\<rparr>);
            rb2 = (if readPos rb1 = size_rb rb1 then rb1\<lparr>readPos := 0\<rparr> else rb1);
            rb3 = (if readPos rb2 = writePos rb2 then rb2\<lparr>filled := False\<rparr> else rb2)
        in (Some (readBytes n rb), rb3))"

text \<open>\<^verbatim>\<open>this.read(available)!\<close>: the read asks for what is available and cannot return
  null; the model gives the empty buffer on that branch.\<close>

definition readAll :: "RingBuffer \<Rightarrow> byte list \<times> RingBuffer" where
  "readAll rb =
     (let available = getAvailableData rb in
      if available = 0 then ([], rb)
      else (case read available rb of
              (Some d, rb') \<Rightarrow> (d, rb')
            | (None, rb') \<Rightarrow> ([], rb')))"

definition peek :: "nat \<Rightarrow> RingBuffer \<Rightarrow> byte list option" where
  "peek n rb = (if n > getAvailableData rb then None else Some (readBytes n rb))"

definition clear :: "RingBuffer \<Rightarrow> RingBuffer" where
  "clear rb = rb\<lparr>writePos := 0, readPos := 0, filled := False\<rparr>"

definition flush :: "RingBuffer \<Rightarrow> byte list \<times> RingBuffer" where
  "flush rb = (case readAll rb of (d, rb') \<Rightarrow> (d, clear rb'))"

subsection \<open>Operation sequences and the queue the buffer stands for\<close>

text \<open>
  A sequence of calls of \<^verbatim>\<open>write\<close> and \<^verbatim>\<open>read\<close>, run on a buffer; the results of the calls
  are dropped, the buffer is kept.
\<close>

datatype rb_op = OpWrite "byte list" | OpRead nat

fun apply_op :: "rb_op \<Rightarrow> RingBuffer \<Rightarrow> RingBuffer" where
  "apply_op (OpWrite d) rb = snd (RingBuffer_write d rb)"
| "apply_op (OpRead k) rb = snd (read k rb)"

fun run_ops :: "rb_op list \<Rightarrow> RingBuffer \<Rightarrow> RingBuffer" where
  "run_ops [] rb = rb"
| "run_ops (op # ops) rb = run_ops ops (apply_op op rb)"

text \<open>
  The specification's side: the written bytes not yet consumed, as a queue (\<open>unread_bytes\<close>),
  and the sequences it speaks of (\<open>within_free_space\<close>): no write is longer than the free
  space, no read asks for more than is unread_bytes. One more condition restricts the reads of
  an exactly full buffer to reads of everything; the results section shows what the
  other reads of a full buffer do.
\<close>

fun unread_bytes :: "rb_op list \<Rightarrow> byte list \<Rightarrow> byte list" where
  "unread_bytes [] q = q"
| "unread_bytes (OpWrite d # ops) q = unread_bytes ops (q @ d)"
| "unread_bytes (OpRead k # ops) q = unread_bytes ops (drop k q)"

fun within_free_space :: "nat \<Rightarrow> rb_op list \<Rightarrow> byte list \<Rightarrow> bool" where
  "within_free_space n [] q = True"
| "within_free_space n (OpWrite d # ops) q = (length d \<le> n - length q \<and> within_free_space n ops (q @ d))"
| "within_free_space n (OpRead k # ops) q =
     (k \<le> length q \<and> (length q = n \<longrightarrow> k = n) \<and> within_free_space n ops (drop k q))"

text \<open>
  The relation between a buffer of capacity \<open>n\<close> and the queue \<open>c\<close> it holds: the cursors are
  in range, the write cursor is \<open>length c\<close> bytes after the read cursor, the flag
  \<^verbatim>\<open>filled\<close> is set exactly when the queue has \<open>n\<close> bytes, and the region holds the queue
  from the read cursor on, wrapping at the end.
\<close>

definition rb_inv :: "nat \<Rightarrow> RingBuffer \<Rightarrow> byte list \<Rightarrow> bool" where
  "rb_inv n rb c \<longleftrightarrow>
     size_rb rb = n \<and> length (buffer rb) = n \<and> length c \<le> n \<and>
     (n = 0 \<longrightarrow> writePos rb = 0 \<and> readPos rb = 0) \<and>
     (0 < n \<longrightarrow> readPos rb < n \<and> writePos rb = (readPos rb + length c) mod n) \<and>
     (filled rb \<longleftrightarrow> 0 < n \<and> length c = n) \<and>
     (\<forall>i < length c. buffer rb ! ((readPos rb + i) mod n) = c ! i)"

section \<open>JavaScript values\<close>

text \<open>
  The values that reach the logger, as finite trees: primitives, plain objects (their own
  enumerable properties, in order), arrays, and \<^verbatim>\<open>Error\<close> instances. An \<^verbatim>\<open>Error\<close> carries
  the name found on its prototype, its message and its stack (none of them enumerable) and
  its own enumerable properties. Numbers are integers. Functions, symbols, getters and
  objects that contain themselves are outside the model; nested objects are held by value.
\<close>

datatype jsval =
    JUndefined
  | JNull
  | JBool bool
  | JNum int
  | JStr string
  | JObj "(string \<times> jsval) list"
  | JArr "jsval list"
  | JError string string string "(string \<times> jsval) list"

type_synonym props = "(string \<times> jsval) list"

text \<open>\<^verbatim>\<open>typeof v === 'object'\<close> (true of \<^verbatim>\<open>null\<close>) and JavaScript truthiness.\<close>

fun typeof_object :: "jsval \<Rightarrow> bool" where
  "typeof_object JNull = True"
| "typeof_object (JObj _) = True"
| "typeof_object (JArr _) = True"
| "typeof_object (JError _ _ _ _) = True"
| "typeof_object _ = False"

fun truthy :: "jsval \<Rightarrow> bool" where
  "truthy JUndefined = False"
| "truthy JNull = False"
| "truthy (JBool b) = b"
| "truthy (JNum n) = (n \<noteq> 0)"
| "truthy (JStr s) = (s \<noteq> [])"
| "truthy _ = True"

text \<open>Decimal numerals, as \<^verbatim>\<open>String(n)\<close> prints an integer and as array indices read as keys.\<close>

definition digitChar :: "nat \<Rightarrow> char" where
  "digitChar d = ''0123456789'' ! d"

function show_nat :: "nat \<Rightarrow> string" where
  "show_nat n = (if n < 10 then [digitChar n] else show_nat (n div 10) @ [digitChar (n mod 10)])"
  by pat_completeness auto
termination
  by (relation "measure id") auto

declare show_nat.simps [simp del]

definition show_int :: "int \<Rightarrow> string" where
  "show_int i = (if i < 0 then CHR ''-'' # show_nat (nat (- i)) else show_nat (nat i))"

definition indexKeys :: "nat \<Rightarrow> string list" where
  "indexKeys n = map show_nat [0..<n]"

text \<open>
  The own enumerable string-keyed properties, as \<^verbatim>\<open>for (key in v)\<close>, \<^verbatim>\<open>Object.keys(v)\<close> and
  \<^verbatim>\<open>Object.assign(target, v)\<close> visit them (the prototypes of these values have no enumerable
  property).
\<close>

fun ownProps :: "jsval \<Rightarrow> props" where
  "ownProps (JObj kvs) = kvs"
| "ownProps (JArr xs) = zip (indexKeys (length xs)) xs"
| "ownProps (JError pn m st ps) = ps"
| "ownProps _ = []"

text \<open>
  The property read \<^verbatim>\<open>v[k]\<close> for the keys the logger reads by name. A missing property
  reads as \<^verbatim>\<open>undefined\<close>; the members of the built-in prototypes (and a string's or an
  array's \<^verbatim>\<open>length\<close>) are not among those keys.
\<close>

definition lookupProp :: "props \<Rightarrow> string \<Rightarrow> jsval" where
  "lookupProp ps k = (case map_of ps k of Some v \<Rightarrow> v | None \<Rightarrow> JUndefined)"

fun getProp :: "jsval \<Rightarrow> string \<Rightarrow> jsval" where
  "getProp (JError pn m st ps) k =
     (case map_of ps k of
        Some v \<Rightarrow> v
      | None \<Rightarrow> (if k = ''name'' then JStr pn
                 else if k = ''message'' then JStr m
                 else if k = ''stack'' then JStr st
                 else JUndefined))"
| "getProp v k = lookupProp (ownProps v) k"

text \<open>\<^verbatim>\<open>k in v\<close> for an object \<open>v\<close>, for keys that no built-in prototype defines.\<close>

definition hasProp :: "jsval \<Rightarrow> string \<Rightarrow> bool" where
  "hasProp v k = (k \<in> set (map fst (ownProps v)))"

text \<open>The assignment \<^verbatim>\<open>o[k] = v\<close> on a property list, and \<^verbatim>\<open>Object.assign(target, source)\<close>.\<close>

definition setProp :: "string \<Rightarrow> jsval \<Rightarrow> props \<Rightarrow> props" where
  "setProp k v ps = AList.update k v ps"

definition assign :: "props \<Rightarrow> props \<Rightarrow> props" where
  "assign target source = fold (\<lambda>(k, v) t. setProp k v t) source target"

text \<open>
  \<^verbatim>\<open>String(v)\<close>, which is also how a value is turned into a property key and how a template
  literal prints it. An array joins its elements with commas, \<^verbatim>\<open>null\<close> and \<^verbatim>\<open>undefined\<close>
  elements printing as nothing; an \<^verbatim>\<open>Error\<close> prints as \<^verbatim>\<open>Error.prototype.toString\<close> does.
\<close>

fun joinWith :: "string \<Rightarrow> string list \<Rightarrow> string" where
  "joinWith sep [] = []"
| "joinWith sep [x] = x"
| "joinWith sep (x # y # ys) = x @ sep @ joinWith sep (y # ys)"

function toStringJS :: "jsval \<Rightarrow> string" where
  "toStringJS JUndefined = ''undefined''"
| "toStringJS JNull = ''null''"
| "toStringJS (JBool b) = (if b then ''true'' else ''false'')"
| "toStringJS (JNum n) = show_int n"
| "toStringJS (JStr s) = s"
| "toStringJS (JObj kvs) = ''[object Object]''"
| "toStringJS (JArr xs) =
     joinWith '','' (map (\<lambda>x. if x = JNull \<or> x = JUndefined then [] else toStringJS x) xs)"
| "toStringJS (JError pn m st ps) =
     (let name = (case map_of ps ''name'' of
                    None \<Rightarrow> pn
                  | Some v \<Rightarrow> if v = JUndefined then ''Error'' else toStringJS v);
          msg = (case map_of ps ''message'' of
                   None \<Rightarrow> m
                 | Some v \<Rightarrow> if v = JUndefined then [] else toStringJS v)
      in if name = [] then msg else if msg = [] then name else name @ '': '' @ msg)"
  by pat_completeness auto
termination
proof (relation "measure size")
  show "wf (measure size)" by simp
next
  fix xs :: "jsval list" and x
  assume "x \<in> set xs"
  then have "size x \<le> size_list size xs" by (rule size_list_estimation') simp
  then show "(x, JArr xs) \<in> measure size" by simp
next
  fix pn m st :: string and ps :: props and v
  assume "map_of ps ''name'' = Some v"
  then have "(''name'', v) \<in> set ps" by (rule map_of_SomeD)
  then have "size_prod (\<lambda>_. 0) size (''name'', v) \<le> size_list (size_prod (\<lambda>_. 0) size) ps"
    by (rule size_list_estimation') simp
  then show "(v, JError pn m st ps) \<in> measure size" by simp
next
  fix pn m st :: string and ps :: props and v
  assume "map_of ps ''message'' = Some v"
  then have "(''message'', v) \<in> set ps" by (rule map_of_SomeD)
  then have "size_prod (\<lambda>_. 0) size (''message'', v) \<le> size_list (size_prod (\<lambda>_. 0) size) ps"
    by (rule size_list_estimation') simp
  then show "(v, JError pn m st ps) \<in> measure size" by simp
qed

section \<open>Redaction walk (the closure \<^verbatim>\<open>redact\<close> in \<^verbatim>\<open>Logger.redactSensitive\<close>)\<close>

text \<open>
  \<^verbatim>\<open>redact(obj)\<close> returns a primitive or \<^verbatim>\<open>null\<close> as it is. Otherwise it visits every
  enumerable key: a key in the list gets the string \<^verbatim>\<open>'[REDACTED]'\<close>, any other key whose
  value has \<^verbatim>\<open>typeof\<close> \<^verbatim>\<open>'object'\<close> gets the walked value. Arrays are objects whose keys
  are their indices, so the walk goes through them too. The source updates the object in
  place and returns it; the model returns the updated value.
\<close>

function redact :: "string list \<Rightarrow> jsval \<Rightarrow> jsval" where
  "redact ks (JObj kvs) =
     JObj (map (\<lambda>(k, x). (k, if k \<in> set ks then JStr ''[REDACTED]''
                             else if typeof_object x then redact ks x else x)) kvs)"
| "redact ks (JArr xs) =
     JArr (map (\<lambda>(k, x). if k \<in> set ks then JStr ''[REDACTED]''
                         else if typeof_object x then redact ks x else x)
             (zip (indexKeys (length xs)) xs))"
| "redact ks (JError pn m st ps) =
     JError pn m st
       (map (\<lambda>(k, x). (k, if k \<in> set ks then JStr ''[REDACTED]''
                          else if typeof_object x then redact ks x else x)) ps)"
| "redact ks JUndefined = JUndefined"
| "redact ks JNull = JNull"
| "redact ks (JBool b) = JBool b"
| "redact ks (JNum n) = JNum n"
| "redact ks (JStr s) = JStr s"
  by pat_completeness auto
termination
proof (relation "measure (\<lambda>(ks, v). size v)")
  show "wf (measure (\<lambda>(ks, v). size v))" by simp
next
  fix ks :: "string list" and kvs :: props and z k x
  assume "z \<in> set kvs" "(k, x) = z"
  then have "(k, x) \<in> set kvs" by simp
  then have "size_prod (\<lambda>_. 0) size (k, x) \<le> size_list (size_prod (\<lambda>_. 0) size) kvs"
    by (rule size_list_estimation') simp
  then show "((ks, x), ks, JObj kvs) \<in> measure (\<lambda>(ks, v). size v)" by simp
next
  fix ks :: "string list" and xs :: "jsval list" and z k x
  assume "z \<in> set (zip (indexKeys (length xs)) xs)" "(k, x) = z"
  then have "x \<in> set xs" by (auto dest: set_zip_rightD)
  then have "size x \<le> size_list size xs" by (rule size_list_estimation') simp
  then show "((ks, x), ks, JArr xs) \<in> measure (\<lambda>(ks, v). size v)" by simp
next
  fix ks :: "string list" and pn m st :: string and ps :: props and z k x
  assume "z \<in> set ps" "(k, x) = z"
  then have "(k, x) \<in> set ps" by simp
  then have "size_prod (\<lambda>_. 0) size (k, x) \<le> size_list (size_prod (\<lambda>_. 0) size) ps"
    by (rule size_list_estimation') simp
  then show "((ks, x), ks, JError pn m st ps) \<in> measure (\<lambda>(ks, v). size v)" by simp
qed

text \<open>What the walk stores under one key, and the walk of a plain object's properties.\<close>

definition redactField :: "string list \<Rightarrow> string \<Rightarrow> jsval \<Rightarrow> jsval" where
  "redactField ks k x =
     (if k \<in> set ks then JStr ''[REDACTED]'' else if typeof_object x then redact ks x else x)"

definition redactProps :: "string list \<Rightarrow> props \<Rightarrow> props" where
  "redactProps ks ps = map (\<lambda>(k, x). (k, redactField ks k x)) ps"

text \<open>\<^verbatim>\<open>redactSensitive(entry)\<close>: nothing to do for an empty key list, else the walk of the
  entry, which is a plain object.\<close>

definition redactSensitive :: "string list \<Rightarrow> props \<Rightarrow> props" where
  "redactSensitive ks entry = (if length ks = 0 then entry else redactProps ks entry)"

section \<open>Error serializer (src/utils/error-serializer.ts)\<close>

text \<open>The names that \<^verbatim>\<open>key in serialized\<close> finds on the prototype of the object literal.\<close>

definition objectPrototypeKeys :: "string list" where
  "objectPrototypeKeys =
     [''constructor'', ''__defineGetter__'', ''__defineSetter__'', ''hasOwnProperty'',
      ''__lookupGetter__'', ''__lookupSetter__'', ''isPrototypeOf'',
      ''propertyIsEnumerable'', ''toString'', ''valueOf'', ''__proto__'',
      ''toLocaleString'']"

definition inPlain :: "string \<Rightarrow> props \<Rightarrow> bool" where
  "inPlain k ps = (k \<in> set (map fst ps) \<or> k \<in> set objectPrototypeKeys)"

definition orElse :: "jsval \<Rightarrow> jsval \<Rightarrow> jsval" where
  "orElse a b = (if truthy a then a else b)"

definition serializeOwn :: "jsval \<Rightarrow> props" where
  "serializeOwn err =
     (let s0 = [(''message'', orElse (getProp err ''message'') (JStr ''Unknown error'')),
                (''name'', orElse (getProp err ''name'') (JStr ''Error'')),
                (''stack'', getProp err ''stack'')];
          s1 = fold (\<lambda>k s. if hasProp err k then setProp k (getProp err k) s else s)
                 [''code'', ''errno'', ''syscall'', ''path'', ''address'', ''port''] s0
      in fold (\<lambda>k s. if \<not> inPlain k s \<and> k \<noteq> ''constructor'' \<and> k \<noteq> ''__proto__''
                      then (let v = getProp err k in
                            if v \<noteq> JUndefined then setProp k v s else s)
                      else s)
           (map fst (ownProps err)) s1)"

function serialize :: "jsval \<Rightarrow> jsval" where
  "serialize err =
     (if \<not> truthy err then err
      else if \<not> typeof_object err then err
      else
        let s = serializeOwn err in
        if truthy (getProp err ''cause'')
        then JObj (setProp ''cause'' (serialize (getProp err ''cause'')) s)
        else JObj s)"
  by pat_completeness auto
termination
proof (relation "measure size")
  show "wf (measure size)" by simp
next
  fix err :: jsval
  assume t: "truthy (getProp err ''cause'')"
  have own: "(''cause'', getProp err ''cause'') \<in> set (ownProps err)"
  proof (cases err)
    case (JError pn m st ps)
    then show ?thesis using t by (auto split: option.splits dest: map_of_SomeD)
  qed (use t in \<open>auto simp: lookupProp_def split: option.splits dest: map_of_SomeD\<close>)
  have "size (getProp err ''cause'') < size err"
  proof (cases err)
    case (JObj kvs)
    then have "size_prod (\<lambda>_. 0) size (''cause'', getProp err ''cause'')
                 \<le> size_list (size_prod (\<lambda>_. 0) size) kvs"
      using own by (intro size_list_estimation') auto
    then show ?thesis using JObj by simp
  next
    case (JArr xs)
    then have "getProp err ''cause'' \<in> set xs" using own by (auto dest: set_zip_rightD)
    then have "size (getProp err ''cause'') \<le> size_list size xs"
      by (rule size_list_estimation') simp
    then show ?thesis using JArr by simp
  next
    case (JError pn m st ps)
    then have "size_prod (\<lambda>_. 0) size (''cause'', getProp err ''cause'')
                 \<le> size_list (size_prod (\<lambda>_. 0) size) ps"
      using own by (intro size_list_estimation') auto
    then show ?thesis using JError by simp
  qed (use own in auto)
  then show "(getProp err ''cause'', err) \<in> measure size" by simp
qed

declare serialize.simps [simp del]

section \<open>Metrics aggregator (src/utils/metrics-aggregator.ts)\<close>

text \<open>
  A log entry is a plain object, modelled by its property list. The per-level table
  \<^verbatim>\<open>counts\<close> is a function on the six levels (an entry whose \<^verbatim>\<open>level\<close> is no level name
  adds a stray property to the table and leaves the six counts alone). The error table is
  an insertion-ordered \<^verbatim>\<open>Map\<close> from signature to count and last-seen time.
\<close>

record MetricsAggregator =
  startTime :: int
  counts :: "LogLevel \<Rightarrow> nat"
  totalCount :: nat
  errorCount :: nat
  droppedCount :: nat
  durations :: "jsval list"
  errorMessages :: "(string \<times> nat \<times> int) list"
  throughputWindow :: "int list"
  maxThroughput :: nat

definition MetricsAggregator_new :: "int \<Rightarrow> MetricsAggregator" where
  "MetricsAggregator_new now =
     \<lparr>startTime = now, counts = (\<lambda>_. 0), totalCount = 0, errorCount = 0, droppedCount = 0,
      durations = [], errorMessages = [], throughputWindow = [], maxThroughput = 0\<rparr>"

text \<open>\<^verbatim>\<open>entry.err?.message\<close>\<close>

definition errMessage :: "props \<Rightarrow> jsval" where
  "errMessage entry =
     (let err = lookupProp entry ''err'' in
      if err = JUndefined \<or> err = JNull then JUndefined else getProp err ''message'')"

definition recordError :: "int \<Rightarrow> props \<Rightarrow> MetricsAggregator \<Rightarrow> MetricsAggregator" where
  "recordError now entry m =
     (if truthy (errMessage entry) then
        let err = lookupProp entry ''err'';
            errorKey = toStringJS (orElse (getProp err ''name'') (JStr ''Error'')) @ '': ''
                         @ toStringJS (getProp err ''message'')
        in (case map_of (errorMessages m) errorKey of
              Some (c, seen) \<Rightarrow>
                m\<lparr>errorMessages := AList.update errorKey (c + 1, now) (errorMessages m)\<rparr>
            | None \<Rightarrow>
                m\<lparr>errorMessages := AList.update errorKey (1, now) (errorMessages m)\<rparr>)
      else m)"

definition recordLog :: "int \<Rightarrow> props \<Rightarrow> MetricsAggregator \<Rightarrow> MetricsAggregator" where
  "recordLog now entry m =
     (let lv = lookupProp entry ''level'';
          m1 = m\<lparr>totalCount := totalCount m + 1\<rparr>;
          m2 = (case levelOfName (toStringJS lv) of
                  Some l \<Rightarrow> m1\<lparr>counts := (counts m1)(l := counts m1 l + 1)\<rparr>
                | None \<Rightarrow> m1);
          m3 = (if lv = JStr ''error'' \<or> lv = JStr ''fatal''
                then recordError now entry (m2\<lparr>errorCount := errorCount m2 + 1\<rparr>)
                else m2);
          m4 = (if lookupProp entry ''duration'' \<noteq> JUndefined
                then m3\<lparr>durations := durations m3 @ [lookupProp entry ''duration'']\<rparr>
                else m3);
          cutoff = now - 1000;
          window = filter (\<lambda>t. t > cutoff) (throughputWindow m4 @ [now]);
          m5 = m4\<lparr>throughputWindow := window\<rparr>
      in if length window > maxThroughput m5
         then m5\<lparr>maxThroughput := length window\<rparr> else m5)"

definition recordDropped :: "MetricsAggregator \<Rightarrow> MetricsAggregator" where
  "recordDropped m = m\<lparr>droppedCount := droppedCount m + 1\<rparr>"

definition reset :: "int \<Rightarrow> MetricsAggregator \<Rightarrow> MetricsAggregator" where
  "reset now m =
     m\<lparr>startTime := now, counts := (\<lambda>_. 0), totalCount := 0, errorCount := 0,
       droppedCount := 0, durations := [], errorMessages := [], throughputWindow := [],
       maxThroughput := 0\<rparr>"

text \<open>
  The duration statistics. The source sorts with the comparator \<^verbatim>\<open>(a, b) => a - b\<close>, which
  orders numbers; on other values the comparator is NaN and the order is left to the engine,
  so the model reports statistics only when every recorded duration is a number. The
  fractions 0.5, 0.95 and 0.99 are exact rationals here.
\<close>

record Performance =
  avgDuration :: rat
  p50Duration :: int
  p95Duration :: int
  p99Duration :: int
  maxDuration :: int

datatype performance = PerfEmpty | PerfNotNumeric | Perf Performance

fun numberOf :: "jsval \<Rightarrow> int option" where
  "numberOf (JNum n) = Some n"
| "numberOf _ = None"

definition percentile :: "int list \<Rightarrow> rat \<Rightarrow> int" where
  "percentile sortedDurations p =
     (let index = \<lceil>of_nat (length sortedDurations) * p\<rceil> - 1
      in sortedDurations ! nat (max 0 index))"

definition performanceOf :: "jsval list \<Rightarrow> performance" where
  "performanceOf ds =
     (if ds = [] then PerfEmpty
      else if list_all (\<lambda>d. numberOf d \<noteq> None) ds then
        (let sortedDurations = sort (map (\<lambda>d. the (numberOf d)) ds) in
         Perf \<lparr>avgDuration = of_int (sum_list sortedDurations) / of_nat (length sortedDurations),
               p50Duration = percentile sortedDurations (1 / 2),
               p95Duration = percentile sortedDurations (19 / 20),
               p99Duration = percentile sortedDurations (99 / 100),
               maxDuration = sortedDurations ! (length sortedDurations - 1)\<rparr>)
      else PerfNotNumeric)"

record MetricsSnapshot =
  timestamp :: int
  duration :: int
  counts_total :: nat
  counts_byLevel :: "LogLevel \<Rightarrow> nat"
  counts_errors :: nat
  counts_dropped :: nat
  perf :: performance
  topErrors :: "(string \<times> nat \<times> int) list"
  throughputCurrent :: nat
  throughputAvg :: "int option"
  throughputMax :: nat

text \<open>
  \<^verbatim>\<open>getSnapshot()\<close> builds the snapshot from the state and then calls \<^verbatim>\<open>reset()\<close>. The two
  clock reads are the parameters \<open>now\<close> and \<open>now'\<close>. The top errors are the ten largest
  counts, by a stable sort. The average throughput is \<^verbatim>\<open>Math.round\<close> of a quotient that is
  infinite or NaN when no millisecond has passed: \<open>None\<close> then.
\<close>

definition getSnapshot :: "int \<Rightarrow> int \<Rightarrow> MetricsAggregator \<Rightarrow> MetricsSnapshot \<times> MetricsAggregator" where
  "getSnapshot now now' m =
     (let d = now - startTime m;
          snapshot =
            \<lparr>timestamp = now, duration = d, counts_total = totalCount m,
             counts_byLevel = counts m, counts_errors = errorCount m,
             counts_dropped = droppedCount m,
             perf = performanceOf (durations m),
             topErrors = take 10 (sort_key (\<lambda>(msg, c, seen). - int c) (errorMessages m)),
             throughputCurrent = length (throughputWindow m),
             throughputAvg =
               (if d = 0 then None
                else Some \<lfloor>(of_nat (totalCount m) * 1000 / of_int d :: rat) + 1 / 2\<rfloor>),
             throughputMax = maxThroughput m\<rparr>
      in (snapshot, reset now' m))"

section \<open>Logger core (src/core/logger.ts)\<close>

subsection \<open>Sinks, shared objects and options\<close>

text \<open>
  A transport is an external collaborator: its \<^verbatim>\<open>write\<close> returns, throws, or returns a
  promise that rejects; its optional \<^verbatim>\<open>close\<close> returns, throws, or returns a promise
  that settles at some later instant. \<open>t_id\<close> stands for the identity of the object.
\<close>

datatype write_result = WriteOk | WriteThrows string | WriteRejects string

datatype close_behaviour =
    NoCloseMethod
  | CloseReturns
  | CloseThrows string
  | CloseResolves nat
  | CloseRejects string nat

record Transport =
  t_id :: nat
  t_type :: string
  t_level :: "LogLevel option"
  t_write :: "props \<Rightarrow> write_result"
  t_close :: close_behaviour

text \<open>
  Loggers hold references to objects that they may share: the array of transports, the
  bound-context object, and the \<^verbatim>\<open>AsyncLocalStorage\<close> whose current store is the ambient
  context (a reference to a context object, or nothing outside \<^verbatim>\<open>run\<close>). The world maps
  references to their current content; \<open>nextRef\<close> is the next unused reference.
\<close>

record World =
  nextRef :: nat
  arrays :: "nat \<Rightarrow> Transport list"
  objects :: "nat \<Rightarrow> props"
  stores :: "nat \<Rightarrow> nat option"

definition allocArray :: "Transport list \<Rightarrow> World \<Rightarrow> nat \<times> World" where
  "allocArray ts w =
     (nextRef w, w\<lparr>nextRef := nextRef w + 1, arrays := (arrays w)(nextRef w := ts)\<rparr>)"

definition allocObject :: "props \<Rightarrow> World \<Rightarrow> nat \<times> World" where
  "allocObject ps w =
     (nextRef w, w\<lparr>nextRef := nextRef w + 1, objects := (objects w)(nextRef w := ps)\<rparr>)"

definition allocStore :: "World \<Rightarrow> nat \<times> World" where
  "allocStore w =
     (nextRef w, w\<lparr>nextRef := nextRef w + 1, stores := (stores w)(nextRef w := None)\<rparr>)"

record SamplingOptions =
  s_enabled :: bool
  s_rate :: rat
  s_adaptive :: "bool option"

record RateLimitOptions =
  r_enabled :: bool
  r_maxPerSecond :: rat
  r_maxBurst :: "rat option"

record MetricsOptions =
  m_enabled :: bool
  m_interval :: "int option"

text \<open>\<^verbatim>\<open>LoggerOptions\<close>, every field optional, and \<^verbatim>\<open>Required<LoggerOptions>\<close> as the
  constructor fills it.\<close>

record LoggerOptions =
  o_level :: "LogLevel option"
  o_name :: "string option"
  o_pretty :: "bool option"
  o_timestamp :: "bool option"
  o_hostname :: "bool option"
  o_pid :: "bool option"
  o_transports :: "nat option"
  o_context :: "nat option"
  o_redact :: "string list option"
  o_filter :: "(props \<Rightarrow> bool) option"
  o_sampling :: "SamplingOptions option"
  o_rateLimit :: "RateLimitOptions option"
  o_metrics :: "MetricsOptions option"

record Options =
  opt_level :: LogLevel
  opt_name :: string
  opt_pretty :: bool
  opt_timestamp :: bool
  opt_hostname :: bool
  opt_pid :: bool
  opt_transports :: nat
  opt_context :: nat
  opt_redact :: "string list"
  opt_filter :: "props \<Rightarrow> bool"
  opt_sampling :: SamplingOptions
  opt_rateLimit :: RateLimitOptions
  opt_metrics :: MetricsOptions

record Logger =
  options :: Options
  transports :: nat
  contextStorage :: nat
  the_hostname :: string
  the_pid :: int
  sampler :: "Sampler option"
  rateLimiter :: "RateLimiter option"
  metricsAggregator :: "MetricsAggregator option"
  metricsInterval :: bool

text \<open>
  What the constructor reads from the process: \<^verbatim>\<open>os.hostname()\<close>, \<^verbatim>\<open>process.pid\<close>, whether
  \<^verbatim>\<open>NODE_ENV\<close> is \<^verbatim>\<open>'development'\<close>, and the console transport that
  \<^verbatim>\<open>new ConsoleTransport({ pretty })\<close> builds (src/transports/console.ts is a collaborator).
\<close>

record Env =
  env_hostname :: string
  env_pid :: int
  env_development :: bool
  env_console :: "bool option \<Rightarrow> Transport"

definition orDefault :: "'a option \<Rightarrow> 'a \<Rightarrow> 'a" where
  "orDefault x d = (case x of Some v \<Rightarrow> v | None \<Rightarrow> d)"

subsection \<open>Constructor and \<^verbatim>\<open>child\<close>\<close>

definition fillOptions :: "Env \<Rightarrow> LoggerOptions \<Rightarrow> World \<Rightarrow> Options \<times> World" where
  "fillOptions env opts w =
     (let (tr, w1) = (case o_transports opts of
                        Some r \<Rightarrow> (r, w)
                      | None \<Rightarrow> allocArray [env_console env (o_pretty opts)] w);
          (cx, w2) = (case o_context opts of
                        Some r \<Rightarrow> (r, w1)
                      | None \<Rightarrow> allocObject [] w1)
      in (\<lparr>opt_level = orDefault (o_level opts) Info,
           opt_name = orDefault (o_name opts) [],
           opt_pretty = orDefault (o_pretty opts) (env_development env),
           opt_timestamp = orDefault (o_timestamp opts) True,
           opt_hostname = orDefault (o_hostname opts) False,
           opt_pid = orDefault (o_pid opts) False,
           opt_transports = tr,
           opt_context = cx,
           opt_redact = orDefault (o_redact opts) [],
           opt_filter = orDefault (o_filter opts) (\<lambda>_. True),
           opt_sampling = orDefault (o_sampling opts)
                            \<lparr>s_enabled = False, s_rate = 1, s_adaptive = Some False\<rparr>,
           opt_rateLimit = orDefault (o_rateLimit opts)
                             \<lparr>r_enabled = False, r_maxPerSecond = 10000, r_maxBurst = None\<rparr>,
           opt_metrics = orDefault (o_metrics opts)
                           \<lparr>m_enabled = False, m_interval = Some 60000\<rparr>\<rparr>, w2))"

text \<open>
  \<^verbatim>\<open>new Logger(options)\<close>. Every logger gets an \<^verbatim>\<open>AsyncLocalStorage\<close> of its own. The
  sampler's constructor throws on a rate outside \<open>[0, 1]\<close>; its seed is the clock.
  The periodic metrics timer is a flag; its ticks are not modelled.
\<close>

definition Logger_new ::
  "Env \<Rightarrow> int \<Rightarrow> LoggerOptions \<Rightarrow> World \<Rightarrow> sampler_error + (Logger \<times> World)" where
  "Logger_new env now opts w =
     (let (os, w1) = fillOptions env opts w;
          (st, w2) = allocStore w1;
          smp = (if s_enabled (opt_sampling os)
                 then (case Sampler_new (s_rate (opt_sampling os)) now of
                         Inl e \<Rightarrow> Inl e
                       | Inr s \<Rightarrow> Inr (Some s))
                 else Inr None)
      in case smp of
           Inl e \<Rightarrow> Inl e
         | Inr so \<Rightarrow>
             Inr (\<lparr>options = os,
                   transports = opt_transports os,
                   contextStorage = st,
                   the_hostname = env_hostname env,
                   the_pid = env_pid env,
                   sampler = so,
                   rateLimiter =
                     (if r_enabled (opt_rateLimit os)
                      then Some (RateLimiter_new (r_maxPerSecond (opt_rateLimit os))
                                   (r_maxBurst (opt_rateLimit os)) None now)
                      else None),
                   metricsAggregator =
                     (if m_enabled (opt_metrics os) then Some (MetricsAggregator_new now)
                      else None),
                   metricsInterval = m_enabled (opt_metrics os)\<rparr>, w2))"

text \<open>
  \<^verbatim>\<open>child(context)\<close>: the options are the parent's, except that \<^verbatim>\<open>context\<close> is a new object
  holding the parent's bound context overlaid with the argument, and \<^verbatim>\<open>transports\<close> is the
  parent's array itself.
\<close>

definition childOptions :: "Logger \<Rightarrow> nat \<Rightarrow> LoggerOptions" where
  "childOptions lg cx =
     \<lparr>o_level = Some (opt_level (options lg)),
      o_name = Some (opt_name (options lg)),
      o_pretty = Some (opt_pretty (options lg)),
      o_timestamp = Some (opt_timestamp (options lg)),
      o_hostname = Some (opt_hostname (options lg)),
      o_pid = Some (opt_pid (options lg)),
      o_transports = Some (transports lg),
      o_context = Some cx,
      o_redact = Some (opt_redact (options lg)),
      o_filter = Some (opt_filter (options lg)),
      o_sampling = Some (opt_sampling (options lg)),
      o_rateLimit = Some (opt_rateLimit (options lg)),
      o_metrics = Some (opt_metrics (options lg))\<rparr>"

definition child ::
  "Env \<Rightarrow> int \<Rightarrow> props \<Rightarrow> Logger \<Rightarrow> World \<Rightarrow> sampler_error + (Logger \<times> World)" where
  "child env now context lg w =
     (let merged = assign (assign [] (objects w (opt_context (options lg)))) context;
          (cx, w1) = allocObject merged w
      in Logger_new env now (childOptions lg cx) w1)"

text \<open>\<^verbatim>\<open>withContext(context, fn)\<close> runs \<open>fn\<close> with the store of this logger's storage set to
  the context object, and restores the store afterwards (synchronous extent only).\<close>

definition withContext :: "Logger \<Rightarrow> nat \<Rightarrow> (World \<Rightarrow> 'a \<times> World) \<Rightarrow> World \<Rightarrow> 'a \<times> World" where
  "withContext lg context fn w =
     (let st = contextStorage lg;
          old = stores w st;
          (r, w1) = fn (w\<lparr>stores := (stores w)(st := Some context)\<rparr>)
      in (r, w1\<lparr>stores := (stores w1)(st := old)\<rparr>))"

subsection \<open>The pipeline of one log call\<close>

text \<open>The argument \<^verbatim>\<open>msg?: string\<close> is optional; \<^verbatim>\<open>if (msg)\<close> holds for a non-empty string.\<close>

definition withMsg :: "string option \<Rightarrow> props \<Rightarrow> props" where
  "withMsg msg entry =
     (case msg of
        Some s \<Rightarrow> if s \<noteq> [] then setProp ''msg'' (JStr s) entry else entry
      | None \<Rightarrow> entry)"

fun isString :: "jsval \<Rightarrow> bool" where
  "isString (JStr _) = True"
| "isString _ = False"

fun isError :: "jsval \<Rightarrow> bool" where
  "isError (JError _ _ _ _) = True"
| "isError _ = False"

text \<open>The entry as the pipeline fills it before it looks at the arguments of the call:
  level and time, the enrichments, the ambient context, then the bound context.\<close>

definition pipelineEntry :: "Logger \<Rightarrow> World \<Rightarrow> LogLevel \<Rightarrow> int \<Rightarrow> props" where
  "pipelineEntry lg w level now =
     (let e0 = [(''level'', JStr (levelName level)), (''time'', JNum now)];
          e1 = (if opt_timestamp (options lg) then setProp ''time'' (JNum now) e0 else e0);
          e2 = (if opt_hostname (options lg)
                then setProp ''hostname'' (JStr (the_hostname lg)) e1 else e1);
          e3 = (if opt_pid (options lg) then setProp ''pid'' (JNum (the_pid lg)) e2 else e2);
          e4 = (if opt_name (options lg) \<noteq> []
                then setProp ''name'' (JStr (opt_name (options lg))) e3 else e3);
          e5 = (case stores w (contextStorage lg) of
                  Some context \<Rightarrow> assign e4 (objects w context)
                | None \<Rightarrow> e4)
      in assign e5 (objects w (opt_context (options lg))))"

text \<open>The entry before redaction: the first argument and the message come last.\<close>

definition buildEntry ::
  "Logger \<Rightarrow> World \<Rightarrow> LogLevel \<Rightarrow> jsval \<Rightarrow> string option \<Rightarrow> int \<Rightarrow> props" where
  "buildEntry lg w level obj msg now =
     (let e6 = pipelineEntry lg w level now
      in if isString obj \<and> msg = None then setProp ''msg'' obj e6
         else if isError obj then withMsg msg (setProp ''err'' (serialize obj) e6)
         else if typeof_object obj \<and> obj \<noteq> JNull then withMsg msg (assign e6 (ownProps obj))
         else withMsg msg (setProp ''msg'' (JStr (toStringJS obj)) e6))"

definition createLogEntry ::
  "Logger \<Rightarrow> World \<Rightarrow> LogLevel \<Rightarrow> jsval \<Rightarrow> string option \<Rightarrow> int \<Rightarrow> props" where
  "createLogEntry lg w level obj msg now =
     redactSensitive (opt_redact (options lg)) (buildEntry lg w level obj msg now)"

text \<open>
  \<^verbatim>\<open>shouldLog(entry.level, min)\<close> on the entry as built: \<^verbatim>\<open>LOG_LEVELS[entry.level]\<close> is a
  number only when the value, as a property key, is one of the six names; any other
  lookup compares as false.
\<close>

definition shouldLogValue :: "jsval \<Rightarrow> LogLevel \<Rightarrow> bool" where
  "shouldLogValue v minLevel =
     (case levelOfName (toStringJS v) of
        Some l \<Rightarrow> shouldLog l minLevel
      | None \<Rightarrow> False)"

text \<open>
  What a log call does to the outside: a transport's \<^verbatim>\<open>write\<close> is invoked with an entry,
  and \<^verbatim>\<open>console.error\<close> reports a failed write. A rejected promise is reported after the
  loop over the transports has ended.
\<close>

datatype event = Written nat props | ConsoleError string

definition writeOne :: "Logger \<Rightarrow> props \<Rightarrow> Transport \<Rightarrow> event list \<times> event list" where
  "writeOne lg entry transport =
     (if shouldLogValue (lookupProp entry ''level'')
           (orDefault (t_level transport) (opt_level (options lg)))
      then (case t_write transport entry of
              WriteOk \<Rightarrow> ([Written (t_id transport) entry], [])
            | WriteThrows e \<Rightarrow> ([Written (t_id transport) entry, ConsoleError e], [])
            | WriteRejects e \<Rightarrow> ([Written (t_id transport) entry], [ConsoleError e]))
      else ([], []))"

definition Logger_write :: "Logger \<Rightarrow> World \<Rightarrow> props \<Rightarrow> event list" where
  "Logger_write lg w entry =
     (let rs = map (writeOne lg entry) (arrays w (transports lg))
      in concat (map fst rs) @ concat (map snd rs))"

definition recordDrop :: "Logger \<Rightarrow> Logger" where
  "recordDrop lg = lg\<lparr>metricsAggregator := map_option recordDropped (metricsAggregator lg)\<rparr>"

definition sampleGate :: "Logger \<Rightarrow> bool \<times> Logger" where
  "sampleGate lg =
     (case sampler lg of
        None \<Rightarrow> (True, lg)
      | Some s \<Rightarrow> (case shouldSample s of (ok, s') \<Rightarrow> (ok, lg\<lparr>sampler := Some s'\<rparr>)))"

definition rateGate :: "int \<Rightarrow> Logger \<Rightarrow> bool \<times> Logger" where
  "rateGate now lg =
     (case rateLimiter lg of
        None \<Rightarrow> (True, lg)
      | Some r \<Rightarrow> (case tryAcquire now r of (ok, r') \<Rightarrow> (ok, lg\<lparr>rateLimiter := Some r'\<rparr>)))"

definition Logger_log ::
  "Logger \<Rightarrow> World \<Rightarrow> LogLevel \<Rightarrow> jsval \<Rightarrow> string option \<Rightarrow> int \<Rightarrow> Logger \<times> event list" where
  "Logger_log lg w level obj msg now =
     (if \<not> shouldLog level (opt_level (options lg)) then (lg, [])
      else
        case sampleGate lg of (sampled, lg1) \<Rightarrow>
        if \<not> sampled then (recordDrop lg1, [])
        else
          case rateGate now lg1 of (admitted, lg2) \<Rightarrow>
          if \<not> admitted then (recordDrop lg2, [])
          else
            let entry = createLogEntry lg2 w level obj msg now in
            if \<not> opt_filter (options lg2) entry then (lg2, [])
            else
              (lg2\<lparr>metricsAggregator := map_option (recordLog now entry) (metricsAggregator lg2)\<rparr>,
               Logger_write lg2 w entry))"

text \<open>The sink writes among the events, as pairs of transport and entry.\<close>

fun sinkWrites :: "event list \<Rightarrow> (nat \<times> props) list" where
  "sinkWrites [] = []"
| "sinkWrites (Written i e # evs) = (i, e) # sinkWrites evs"
| "sinkWrites (ConsoleError _ # evs) = sinkWrites evs"

subsection \<open>Level, transports, timer, close\<close>

definition setLevel :: "string \<Rightarrow> Logger \<Rightarrow> string + Logger" where
  "setLevel level lg =
     (case levelOfName level of
        None \<Rightarrow> Inl (''Invalid log level: '' @ level)
      | Some l \<Rightarrow> Inr (lg\<lparr>options := (options lg)\<lparr>opt_level := l\<rparr>\<rparr>))"

definition addTransport :: "Transport \<Rightarrow> Logger \<Rightarrow> World \<Rightarrow> World" where
  "addTransport transport lg w =
     w\<lparr>arrays := (arrays w)(transports lg := arrays w (transports lg) @ [transport])\<rparr>"

fun removeFirst :: "nat \<Rightarrow> Transport list \<Rightarrow> Transport list" where
  "removeFirst i [] = []"
| "removeFirst i (t # ts) = (if t_id t = i then ts else t # removeFirst i ts)"

definition removeTransport :: "Transport \<Rightarrow> Logger \<Rightarrow> World \<Rightarrow> World" where
  "removeTransport transport lg w =
     w\<lparr>arrays := (arrays w)(transports lg := removeFirst (t_id transport) (arrays w (transports lg)))\<rparr>"

text \<open>\<^verbatim>\<open>startTimer()\<close> keeps the start time; \<^verbatim>\<open>done(obj, msg)\<close> logs
  \<^verbatim>\<open>{ ...obj, duration }\<close> at level info.\<close>

definition timerDone ::
  "Logger \<Rightarrow> World \<Rightarrow> int \<Rightarrow> props option \<Rightarrow> string option \<Rightarrow> int \<Rightarrow> Logger \<times> event list" where
  "timerDone lg w start obj msg now =
     Logger_log lg w Info
       (JObj (setProp ''duration'' (JNum (now - start)) (assign [] (orDefault obj []))))
       msg now"

text \<open>
  \<^verbatim>\<open>close()\<close> clears the metrics timer, calls \<^verbatim>\<open>close\<close> on each transport in the order of
  the array (\<^verbatim>\<open>Promise.resolve()\<close> for one without the method) and awaits \<^verbatim>\<open>Promise.all\<close>
  of the results. A \<^verbatim>\<open>close\<close> that throws ends the \<^verbatim>\<open>map\<close>: the later transports are not
  called and the promise of \<^verbatim>\<open>close()\<close> rejects with what was thrown. Otherwise
  \<^verbatim>\<open>Promise.all\<close> fulfils when every result fulfils and rejects with the reason of the
  rejection that settles first (the first in the array among those of one instant).
\<close>

datatype outcome = Fulfilled | Rejected string

fun invokeCloses :: "Transport list \<Rightarrow> nat list \<times> close_behaviour list \<times> string option" where
  "invokeCloses [] = ([], [], None)"
| "invokeCloses (t # ts) =
     (case t_close t of
        NoCloseMethod \<Rightarrow>
          (case invokeCloses ts of (ids, rs, thrown) \<Rightarrow> (ids, NoCloseMethod # rs, thrown))
      | CloseThrows e \<Rightarrow> ([t_id t], [], Some e)
      | b \<Rightarrow> (case invokeCloses ts of (ids, rs, thrown) \<Rightarrow> (t_id t # ids, b # rs, thrown)))"

fun firstRejection :: "close_behaviour list \<Rightarrow> (nat \<times> string) option" where
  "firstRejection [] = None"
| "firstRejection (CloseRejects e t # rs) =
     (case firstRejection rs of
        None \<Rightarrow> Some (t, e)
      | Some (t', e') \<Rightarrow> if t' < t then Some (t', e') else Some (t, e))"
| "firstRejection (_ # rs) = firstRejection rs"

definition promiseAll :: "close_behaviour list \<Rightarrow> outcome" where
  "promiseAll rs = (case firstRejection rs of None \<Rightarrow> Fulfilled | Some (t, e) \<Rightarrow> Rejected e)"

definition Logger_close :: "Logger \<Rightarrow> World \<Rightarrow> outcome \<times> nat list \<times> Logger" where
  "Logger_close lg w =
     (let lg' = lg\<lparr>metricsInterval := False\<rparr> in
      case invokeCloses (arrays w (transports lg)) of
        (ids, rs, Some e) \<Rightarrow> (Rejected e, ids, lg')
      | (ids, rs, None) \<Rightarrow> (promiseAll rs, ids, lg'))"

definition getMetrics :: "int \<Rightarrow> int \<Rightarrow> Logger \<Rightarrow> MetricsSnapshot option \<times> Logger" where
  "getMetrics now now' lg =
     (case metricsAggregator lg of
        Some m \<Rightarrow> (case getSnapshot now now' m of
                     (snap, m') \<Rightarrow> (Some snap, lg\<lparr>metricsAggregator := Some m'\<rparr>))
      | None \<Rightarrow> (None, lg))"

subsection \<open>A logger with capturing sinks, as the repository's tests build one\<close>

text \<open>
  The tests log into a mock transport that records what it is given. \<open>testSink i c\<close> is
  such a sink with identity \<open>i\<close> and \<^verbatim>\<open>close\<close> behaviour \<open>c\<close>; \<open>testWorld ts\<close> holds the
  transport array \<open>ts\<close> at reference 0, an empty bound-context object at 1 and an idle
  context storage at 2; \<open>testLogger l ks\<close> is the logger that
  \<^verbatim>\<open>new Logger({ level: l, redact: ks, transports: ts })\<close> yields there.
\<close>

definition testSink :: "nat \<Rightarrow> close_behaviour \<Rightarrow> Transport" where
  "testSink i c =
     \<lparr>t_id = i, t_type = ''test'', t_level = None, t_write = (\<lambda>_. WriteOk), t_close = c\<rparr>"

definition testEnv :: Env where
  "testEnv =
     \<lparr>env_hostname = ''host'', env_pid = 4242, env_development = False,
      env_console = (\<lambda>_. testSink 0 NoCloseMethod)\<rparr>"

definition testWorld :: "Transport list \<Rightarrow> World" where
  "testWorld ts =
     \<lparr>nextRef = 3, arrays = (\<lambda>_. [])(0 := ts), objects = (\<lambda>_. []), stores = (\<lambda>_. None)\<rparr>"

definition testLogger :: "LogLevel \<Rightarrow> string list \<Rightarrow> Logger" where
  "testLogger l ks =
     \<lparr>options =
        \<lparr>opt_level = l, opt_name = [], opt_pretty = False, opt_timestamp = True,
         opt_hostname = False, opt_pid = False, opt_transports = 0, opt_context = 1,
         opt_redact = ks, opt_filter = (\<lambda>_. True),
         opt_sampling = \<lparr>s_enabled = False, s_rate = 1, s_adaptive = Some False\<rparr>,
         opt_rateLimit = \<lparr>r_enabled = False, r_maxPerSecond = 10000, r_maxBurst = None\<rparr>,
         opt_metrics = \<lparr>m_enabled = False, m_interval = Some 60000\<rparr>\<rparr>,
      transports = 0, contextStorage = 2, the_hostname = ''host'', the_pid = 4242,
      sampler = None, rateLimiter = None, metricsAggregator = None,
      metricsInterval = False\<rparr>"

section \<open>Safe serializer (src/utils/safe-stringify.ts)\<close>

text \<open>
  \<^verbatim>\<open>stringify\<close> hands the value to \<^verbatim>\<open>JSON.stringify\<close> with a replacer function. Cycles need
  object identity, so here objects live in a heap and values refer to them by address.
  The heap holds plain objects, arrays, and the instances the replacer tells apart:
  \<^verbatim>\<open>Error\<close> (name, message, stack), \<^verbatim>\<open>RegExp\<close> (its text), \<^verbatim>\<open>Date\<close> (its ISO string, or
  nothing for an invalid date), \<^verbatim>\<open>Set\<close> (its members in order) and \<^verbatim>\<open>Map\<close> (its entries in
  order, each key given as the property key it turns into). Numbers are integers; a
  function is given by its name and a symbol by its description. Property getters,
  proxies, user-defined \<^verbatim>\<open>toJSON\<close> methods and the \<^verbatim>\<open>space\<close> argument are outside the model.
\<close>

datatype hval =
    HUndefined
  | HNull
  | HBool bool
  | HNum int
  | HStr string
  | HBigInt int
  | HFunction string
  | HSymbol string
  | HRef nat

datatype hobj =
    OPlain "(string \<times> hval) list"
  | OArray "hval list"
  | OError string string "string option"
  | ORegExp string
  | ODate "string option"
  | OSet "hval list"
  | OMap "(string \<times> hval) list"

type_synonym heap = "nat \<Rightarrow> hobj"

text \<open>
  What a \<^verbatim>\<open>throw\<close> raises, as far as the \<^verbatim>\<open>catch\<close> block can tell: an error object with a
  message, \<^verbatim>\<open>null\<close> or \<^verbatim>\<open>undefined\<close> (reading \<^verbatim>\<open>.message\<close> of it is itself a TypeError),
  or some other value without a message. The caller's replacer is a function of key and
  value that returns a value or throws.
\<close>

datatype thrown = ThrowError string | ThrowNullish | ThrowOther

type_synonym replacer = "string \<Rightarrow> hval \<Rightarrow> thrown + hval"

text \<open>\<^verbatim>\<open>QuoteJSONString\<close> on 8-bit characters.\<close>

definition hexDigit :: "nat \<Rightarrow> char" where
  "hexDigit d = ''0123456789abcdef'' ! d"

definition escapeChar :: "char \<Rightarrow> string" where
  "escapeChar c =
     (if c = CHR 0x22 then [CHR 0x5C, CHR 0x22]
      else if c = CHR 0x5C then [CHR 0x5C, CHR 0x5C]
      else if c = CHR 0x08 then [CHR 0x5C, CHR ''b'']
      else if c = CHR 0x0C then [CHR 0x5C, CHR ''f'']
      else if c = CHR 0x0A then [CHR 0x5C, CHR ''n'']
      else if c = CHR 0x0D then [CHR 0x5C, CHR ''r'']
      else if c = CHR 0x09 then [CHR 0x5C, CHR ''t'']
      else if of_char c < (32 :: nat)
      then [CHR 0x5C, CHR ''u'', CHR ''0'', CHR ''0'',
            hexDigit (of_char c div 16), hexDigit (of_char c mod 16)]
      else [c])"

definition quoteJSON :: "string \<Rightarrow> string" where
  "quoteJSON s = CHR 0x22 # concat (map escapeChar s) @ [CHR 0x22]"

text \<open>Step 2 of \<^verbatim>\<open>SerializeJSONProperty\<close>: a \<^verbatim>\<open>Date\<close> has a \<^verbatim>\<open>toJSON\<close> method, which gives its
  ISO string, or \<^verbatim>\<open>null\<close> for an invalid date, before the replacer sees the value.\<close>

definition toJSONStep :: "heap \<Rightarrow> hval \<Rightarrow> hval" where
  "toJSONStep h v =
     (case v of
        HRef a \<Rightarrow> (case h a of
                     ODate isoText \<Rightarrow> (case isoText of Some s \<Rightarrow> HStr s | None \<Rightarrow> HNull)
                   | _ \<Rightarrow> v)
      | _ \<Rightarrow> v)"

text \<open>
  The body of the replacer that \<^verbatim>\<open>stringify\<close> passes, after the caller's replacer has run.
  Its result is a primitive, a new object or array made on the spot (from an \<^verbatim>\<open>Error\<close>, a
  \<^verbatim>\<open>Map\<close> or a \<^verbatim>\<open>Set\<close>), or the object it was given, which it then adds to \<^verbatim>\<open>seen\<close>.
\<close>

datatype replaced =
    Prim hval
  | FreshObject "(string \<times> hval) list"
  | FreshArray "hval list"
  | Existing nat

definition fromEntries :: "(string \<times> hval) list \<Rightarrow> (string \<times> hval) list" where
  "fromEntries kvs = fold (\<lambda>(k, v) t. AList.update k v t) kvs []"

definition builtinReplace :: "heap \<Rightarrow> nat list \<Rightarrow> hval \<Rightarrow> thrown + (replaced \<times> nat list)" where
  "builtinReplace h seen v =
     (case v of
        HUndefined \<Rightarrow> Inr (Prim HUndefined, seen)
      | HBigInt n \<Rightarrow> Inr (Prim (HStr (show_int n)), seen)
      | HFunction name \<Rightarrow>
          Inr (Prim (HStr (''[Function: '' @ (if name = [] then ''anonymous'' else name) @ '']'')),
               seen)
      | HSymbol d \<Rightarrow> Inr (Prim (HStr (''Symbol('' @ d @ '')'')), seen)
      | HRef a \<Rightarrow>
          (case h a of
             OError n m st \<Rightarrow>
               Inr (FreshObject [(''name'', HStr n), (''message'', HStr m),
                                 (''stack'', case st of Some s \<Rightarrow> HStr s | None \<Rightarrow> HUndefined)],
                    seen)
           | ORegExp src \<Rightarrow> Inr (Prim (HStr src), seen)
           | ODate isoText \<Rightarrow>
               (case isoText of
                  Some s \<Rightarrow> Inr (Prim (HStr s), seen)
                | None \<Rightarrow> Inl (ThrowError ''Invalid time value''))
           | OSet xs \<Rightarrow> Inr (FreshArray xs, seen)
           | OMap kvs \<Rightarrow> Inr (FreshObject (fromEntries kvs), seen)
           | _ \<Rightarrow> if a \<in> set seen then Inr (Prim (HStr ''[Circular]''), seen)
                  else Inr (Existing a, a # seen))
      | _ \<Rightarrow> Inr (Prim v, seen))"

text \<open>The primitive cases of \<^verbatim>\<open>SerializeJSONProperty\<close>: \<open>None\<close> stands for \<^verbatim>\<open>undefined\<close>.\<close>

definition serPrim :: "hval \<Rightarrow> thrown + string option" where
  "serPrim p =
     (case p of
        HNull \<Rightarrow> Inr (Some ''null'')
      | HBool b \<Rightarrow> Inr (Some (if b then ''true'' else ''false''))
      | HNum n \<Rightarrow> Inr (Some (show_int n))
      | HStr s \<Rightarrow> Inr (Some (quoteJSON s))
      | HBigInt n \<Rightarrow> Inl (ThrowError ''Do not know how to serialize a BigInt'')
      | _ \<Rightarrow> Inr None)"

definition braces :: "string list \<Rightarrow> string" where
  "braces ms = ''{'' @ joinWith '','' ms @ ''}''"

definition brackets :: "string list \<Rightarrow> string" where
  "brackets ms = ''['' @ joinWith '','' ms @ '']''"

text \<open>
  \<^verbatim>\<open>SerializeJSONProperty\<close>, \<^verbatim>\<open>SerializeJSONObject\<close> and \<^verbatim>\<open>SerializeJSONArray\<close> with the
  replacer in place. \<open>d\<close> is the number of nested calls the engine's stack still allows:
  at 0 the engine raises the RangeError of a stack overflow. \<open>stack\<close> holds the objects being
  serialized, for the engine's own cycle check, and \<open>seen\<close> is the replacer's set. An
  object member whose value serializes to \<^verbatim>\<open>undefined\<close> is left out; an array element
  that does so prints as \<^verbatim>\<open>null\<close>.
\<close>

definition applyReplacer :: "heap \<Rightarrow> replacer option \<Rightarrow> string \<Rightarrow> hval \<Rightarrow> thrown + hval" where
  "applyReplacer h r key v =
     (case r of None \<Rightarrow> Inr (toJSONStep h v) | Some f \<Rightarrow> f key (toJSONStep h v))"

definition primResult :: "hval \<Rightarrow> nat list \<Rightarrow> thrown + (string option \<times> nat list)" where
  "primResult p seen = (case serPrim p of Inl e \<Rightarrow> Inl e | Inr so \<Rightarrow> Inr (so, seen))"

definition wrapped ::
  "(string list \<Rightarrow> string) \<Rightarrow> thrown + (string list \<times> nat list)
     \<Rightarrow> thrown + (string option \<times> nat list)" where
  "wrapped f res = (case res of Inl e \<Rightarrow> Inl e | Inr (ms, seen) \<Rightarrow> Inr (Some (f ms), seen))"

definition member :: "string \<Rightarrow> string option \<Rightarrow> string list \<Rightarrow> string list" where
  "member k so ms = (case so of None \<Rightarrow> ms | Some s \<Rightarrow> (quoteJSON k @ '':'' @ s) # ms)"

definition element :: "string option \<Rightarrow> string list \<Rightarrow> string list" where
  "element so ms = (case so of None \<Rightarrow> ''null'' | Some s \<Rightarrow> s) # ms"

fun serProperty ::
    "heap \<Rightarrow> replacer option \<Rightarrow> nat \<Rightarrow> nat list \<Rightarrow> nat list \<Rightarrow> string \<Rightarrow> hval
       \<Rightarrow> thrown + (string option \<times> nat list)"
  and serMembers ::
    "heap \<Rightarrow> replacer option \<Rightarrow> nat \<Rightarrow> nat list \<Rightarrow> nat list \<Rightarrow> (string \<times> hval) list
       \<Rightarrow> thrown + (string list \<times> nat list)"
  and serElements ::
    "heap \<Rightarrow> replacer option \<Rightarrow> nat \<Rightarrow> nat list \<Rightarrow> nat list \<Rightarrow> nat \<Rightarrow> hval list
       \<Rightarrow> thrown + (string list \<times> nat list)"
where
  "serProperty h r 0 stack seen key v = Inl (ThrowError ''Maximum call stack size exceeded'')"
| "serProperty h r (Suc d) stack seen key v =
     (case applyReplacer h r key v of
        Inl e \<Rightarrow> Inl e
      | Inr v2 \<Rightarrow>
          (case builtinReplace h seen v2 of
             Inl e \<Rightarrow> Inl e
           | Inr (Prim p, seen1) \<Rightarrow> primResult p seen1
           | Inr (FreshObject props, seen1) \<Rightarrow>
               wrapped braces (serMembers h r d stack seen1 props)
           | Inr (FreshArray xs, seen1) \<Rightarrow>
               wrapped brackets (serElements h r d stack seen1 0 xs)
           | Inr (Existing a, seen1) \<Rightarrow>
               (if a \<in> set stack then Inl (ThrowError ''Converting circular structure to JSON'')
                else
                  (case h a of
                     OArray xs \<Rightarrow> wrapped brackets (serElements h r d (a # stack) seen1 0 xs)
                   | OPlain props \<Rightarrow> wrapped braces (serMembers h r d (a # stack) seen1 props)
                   | _ \<Rightarrow> Inr (Some ''{}'', seen1)))))"
| "serMembers h r d stack seen [] = Inr ([], seen)"
| "serMembers h r d stack seen ((k, v) # kvs) =
     (case serProperty h r d stack seen k v of
        Inl e \<Rightarrow> Inl e
      | Inr (so, seen1) \<Rightarrow>
          (case serMembers h r d stack seen1 kvs of
             Inl e \<Rightarrow> Inl e
           | Inr (ms, seen2) \<Rightarrow> Inr (member k so ms, seen2)))"
| "serElements h r d stack seen i [] = Inr ([], seen)"
| "serElements h r d stack seen i (x # xs) =
     (case serProperty h r d stack seen (show_nat i) x of
        Inl e \<Rightarrow> Inl e
      | Inr (so, seen1) \<Rightarrow>
          (case serElements h r d stack seen1 (i + 1) xs of
             Inl e \<Rightarrow> Inl e
           | Inr (ms, seen2) \<Rightarrow> Inr (element so ms, seen2)))"

text \<open>
  \<^verbatim>\<open>stringify(obj, replacer)\<close>: a new \<^verbatim>\<open>seen\<close> set, then \<^verbatim>\<open>JSON.stringify\<close> inside
  \<^verbatim>\<open>try\<close>. The \<^verbatim>\<open>catch\<close> block returns the sentinel built from \<^verbatim>\<open>err.message\<close>; when what
  was thrown is \<^verbatim>\<open>null\<close> or \<^verbatim>\<open>undefined\<close> that read throws, out of \<^verbatim>\<open>stringify\<close>.
\<close>

datatype stringify_result = Returned string | ReturnedUndefined | Threw

definition stringify :: "heap \<Rightarrow> replacer option \<Rightarrow> nat \<Rightarrow> hval \<Rightarrow> stringify_result" where
  "stringify h r d obj =
     (case serProperty h r d [] [] [] obj of
        Inr (Some s, seen) \<Rightarrow> Returned s
      | Inr (None, seen) \<Rightarrow> ReturnedUndefined
      | Inl (ThrowError m) \<Rightarrow> Returned (''[Stringify Error: '' @ m @ '']'')
      | Inl ThrowOther \<Rightarrow> Returned ''[Stringify Error: undefined]''
      | Inl ThrowNullish \<Rightarrow> Threw)"



text \<open>
  Three object graphs: \<^verbatim>\<open>obj = {a: 1}; obj.self = obj\<close> (the repository's test of circular
  references); \<^verbatim>\<open>s = new Set([1]); {a: s, b: s}\<close>; and \<^verbatim>\<open>s = new Set(); s.add(s)\<close>.
\<close>

definition selfRefHeap :: heap where
  "selfRefHeap = (\<lambda>_. OPlain [])(0 := OPlain [(''a'', HNum 1), (''self'', HRef 0)])"


definition selfSetHeap :: heap where
  "selfSetHeap = (\<lambda>_. OPlain [])(0 := OSet [HRef 0])"

section \<open>Results: severity levels\<close>

lemma shouldLog_iff: "shouldLog l m \<longleftrightarrow> LOG_LEVELS m \<le> LOG_LEVELS l"
  by (simp add: shouldLog_def)

section \<open>Results: sampler\<close>













section \<open>Results: token bucket\<close>


text \<open>
  When a refill does happen the clock is set to \<open>now\<close>, so the part of the elapsed time
  that did not make a whole token is dropped: after 1500 ms at one token per second the
  bucket holds one token and the half token is gone.
\<close>

lemma refill_drops_fraction:
  "refill 1500 \<lparr>maxPerSecond = 1, maxBurst = 10, windowMs = 1000, tokens = 0,
                 lastRefill = 0, dropped = 0\<rparr>
     = \<lparr>maxPerSecond = 1, maxBurst = 10, windowMs = 1000, tokens = 1,
         lastRefill = 1500, dropped = 0\<rparr>"
  by code_simp

text \<open>The admission step itself is as the claim states it.\<close>

lemma tryAcquire_admits_iff:
  "fst (tryAcquire now rl) \<longleftrightarrow> tokens (refill now rl) > 0"
  by (simp add: tryAcquire_def Let_def)

lemma tryAcquire_effect:
  "snd (tryAcquire now rl) =
     (if tokens (refill now rl) > 0
      then (refill now rl)\<lparr>tokens := tokens (refill now rl) - 1\<rparr>
      else (refill now rl)\<lparr>dropped := dropped (refill now rl) + 1\<rparr>)"
  by (simp add: tryAcquire_def Let_def)

section \<open>Results: ring buffer\<close>

text \<open>
  Claim C2 at a write of ten bytes \<open>'A'\<close> into an empty buffer of capacity 10, which stays
  within the free space. The write reports success, yet the cursors do not move: no byte
  counts as used, \<^verbatim>\<open>readAll()\<close> returns the empty buffer instead of the ten bytes written,
  and \<^verbatim>\<open>read(10)\<close> returns null.
\<close>

theorem ring_buffer_special_case_drops_write:
  "(case RingBuffer_write (replicate 10 65) (RingBuffer_new 10) of
      (ok, rb) \<Rightarrow> ok \<and> getUsedSpace rb = 0 \<and> getFreeSpace rb = 10 \<and>
                  fst (readAll rb) = [] \<and> fst (read 10 rb) = None)"
  by code_simp

text \<open>The general path, which every other capacity and content takes, keeps the bytes:
  a buffer of capacity 5 filled with five bytes has five used, none free, and reads them
  back in order.\<close>

lemma ring_buffer_general_path_keeps_write:
  "(case RingBuffer_write [1, 2, 3, 4, 5] (RingBuffer_new 5) of
      (ok, rb) \<Rightarrow> ok \<and> getUsedSpace rb = 5 \<and> getFreeSpace rb = 0 \<and>
                  fst (readAll rb) = [1, 2, 3, 4, 5])"
  by code_simp

text \<open>
  The second byte test breaks the conservation of space without any overwrite: in a
  buffer of capacity 10, write one byte, read it, then write ten bytes ending in \<open>'Y'\<close>
  (they fit: the buffer is empty). The buffer is full, but one byte is reported used and
  none free, and \<^verbatim>\<open>readAll()\<close> returns a single byte.
\<close>

lemma ring_buffer_byte_test_breaks_conservation:
  "(let rb1 = snd (RingBuffer_write [88] (RingBuffer_new 10));
        rb2 = snd (read 1 rb1);
        rb3 = snd (RingBuffer_write [1, 2, 3, 4, 5, 6, 7, 8, 9, 89] rb2)
    in getFreeSpace rb2 = 10 \<and> getUsedSpace rb3 = 1 \<and> getFreeSpace rb3 = 0 \<and>
       fst (readAll rb3) = [1])"
  by code_simp

subsection \<open>The general path keeps the queue\<close>

text \<open>
  The two byte tests look only at buffers of capacity 10. For every other capacity the
  code is a queue on the sequences of \<open>within_free_space\<close>. The proof carries \<open>rb_inv\<close>
  through \<^verbatim>\<open>write\<close> and \<^verbatim>\<open>read\<close>.
\<close>

lemma mod_lt2: "x < 2 * n \<Longrightarrow> x mod n = (if x < n then x else x - (n::nat))"
  by (simp add: mod_if)

lemma length_copy [simp]: "length (copy s t ts ss se) = length t"
  by (simp add: copy_def Let_def min_def)

lemma overwrite_nth:
  assumes "i < length t" "length ch \<le> length t - a"
  shows "(take a t @ ch @ drop (a + length ch) t) ! i
           = (if a \<le> i \<and> i < a + length ch then ch ! (i - a) else t ! i)"
proof (cases "i < a")
  case True
  then have "i < length (take a t)" using assms(1) by simp
  then show ?thesis using True by (simp add: nth_append)
next
  case False
  then have a: "a \<le> i" by simp
  then have la: "length (take a t) = a" using assms(1) by simp
  show ?thesis
  proof (cases "i < a + length ch")
    case True
    have "(take a t @ ch @ drop (a + length ch) t) ! i = (ch @ drop (a + length ch) t) ! (i - a)"
      using a la by (simp add: nth_append)
    also have "\<dots> = ch ! (i - a)"
    proof -
      have "i - a < length ch" using True a by arith
      then show ?thesis by (simp add: nth_append)
    qed
    finally show ?thesis using True a by simp
  next
    case nc: False
    have "(take a t @ ch @ drop (a + length ch) t) ! i = (ch @ drop (a + length ch) t) ! (i - a)"
      using a la by (simp add: nth_append)
    also have "\<dots> = drop (a + length ch) t ! (i - a - length ch)"
    proof -
      have "\<not> i - a < length ch" using nc a by arith
      then show ?thesis by (simp add: nth_append)
    qed
    also have "\<dots> = t ! i"
    proof -
      have "a + length ch \<le> length t" using nc assms(1) by simp
      moreover have "a + length ch + (i - a - length ch) = i" using nc a by simp
      ultimately show ?thesis by (simp add: nth_drop)
    qed
    finally show ?thesis using nc by simp
  qed
qed

lemma copy_nth:
  assumes "i < length t"
  shows "copy s t ts ss se ! i =
           (if ts \<le> i \<and> i - ts < min (se - ss) (length s - ss) then s ! (ss + (i - ts)) else t ! i)"
proof -
  define ch where "ch = take (length t - ts) (take (se - ss) (drop ss s))"
  have lc: "length ch = min (length t - ts) (min (se - ss) (length s - ss))"
    by (simp add: ch_def min_def)
  have le: "length ch \<le> length t - ts" using lc by simp
  have c: "copy s t ts ss se = take ts t @ ch @ drop (ts + length ch) t"
    by (simp add: copy_def Let_def ch_def)
  have n: "ch ! j = s ! (ss + j)" if "j < length ch" for j
  proof -
    have "j < length s - ss" using that lc by simp
    then have "ss \<le> length s" by simp
    then show ?thesis using that lc by (simp add: ch_def nth_drop)
  qed
  show ?thesis
  proof (cases "ts \<le> i \<and> i < ts + length ch")
    case True
    have "copy s t ts ss se ! i = (if ts \<le> i \<and> i < ts + length ch then ch ! (i - ts) else t ! i)"
      unfolding c by (rule overwrite_nth [OF assms le])
    then have "copy s t ts ss se ! i = ch ! (i - ts)" using True by simp
    moreover have j: "i - ts < length ch" using True by arith
    moreover have "ch ! (i - ts) = s ! (ss + (i - ts))" using j by (rule n)
    moreover have "i - ts < min (se - ss) (length s - ss)" using j lc by simp
    ultimately show ?thesis using True by simp
  next
    case False
    have "copy s t ts ss se ! i = (if ts \<le> i \<and> i < ts + length ch then ch ! (i - ts) else t ! i)"
      unfolding c by (rule overwrite_nth [OF assms le])
    then have "copy s t ts ss se ! i = t ! i" using False by simp
    moreover have "\<not> (ts \<le> i \<and> i - ts < min (se - ss) (length s - ss))"
    proof
      assume h: "ts \<le> i \<and> i - ts < min (se - ss) (length s - ss)"
      have "i - ts < length t - ts" using h assms by arith
      then have "i - ts < length ch" using h lc by simp
      then have "i < ts + length ch" using h by arith
      then show False using False h by simp
    qed
    ultimately show ?thesis by (simp only: if_False)
  qed
qed

lemma rb_used:
  assumes "rb_inv n rb c" "n \<noteq> 10"
  shows "getAvailableData rb = length c"
proof (cases "n = 0")
  case True
  then show ?thesis using assms by (auto simp: rb_inv_def getAvailableData_def)
next
  case False
  then have n: "0 < n" by simp
  have f: "size_rb rb = n" "readPos rb < n" "writePos rb = (readPos rb + length c) mod n"
    "filled rb \<longleftrightarrow> length c = n" "length c \<le> n"
    using assms(1) n by (auto simp: rb_inv_def)
  have "readPos rb + length c < 2 * n" using f by simp
  then have w: "writePos rb = (if readPos rb + length c < n then readPos rb + length c
                               else readPos rb + length c - n)"
    using f(3) by (simp add: mod_lt2)
  show ?thesis
    using f w assms(2) by (auto simp: getAvailableData_def split: if_splits)
qed

lemma rb_free:
  assumes "rb_inv n rb c"
  shows "getAvailableSpace rb = n - length c"
proof (cases "n = 0")
  case True
  then show ?thesis using assms by (auto simp: rb_inv_def getAvailableSpace_def)
next
  case False
  then have n: "0 < n" by simp
  have f: "size_rb rb = n" "readPos rb < n" "writePos rb = (readPos rb + length c) mod n"
    "filled rb \<longleftrightarrow> length c = n" "length c \<le> n"
    using assms(1) n by (auto simp: rb_inv_def)
  have "readPos rb + length c < 2 * n" using f by simp
  then have w: "writePos rb = (if readPos rb + length c < n then readPos rb + length c
                               else readPos rb + length c - n)"
    using f(3) by (simp add: mod_lt2)
  show ?thesis
    using f w by (auto simp: getAvailableSpace_def split: if_splits)
qed

lemma rb_new: "rb_inv n (RingBuffer_new n) []"
  by (auto simp: rb_inv_def RingBuffer_new_def)


lemma rb_write_state:
  assumes "size_rb rb = n" "length (buffer rb) = n" "0 < n" "writePos rb < n" "readPos rb < n"
    and "n \<noteq> 10" "length d \<le> getAvailableSpace rb" "length d \<le> n"
  shows "\<exists>b. RingBuffer_write d rb
           = (True, rb\<lparr>buffer := b,
                        writePos := (writePos rb + length d) mod n,
                        filled := (filled rb \<or> ((writePos rb + length d) mod n = readPos rb
                                             \<and> 0 < length d))\<rparr>) \<and>
         length b = n \<and>
         (\<forall>j < n. b ! j =
            (if writePos rb \<le> j \<and> j < writePos rb + length d then d ! (j - writePos rb)
             else if j + n < writePos rb + length d then d ! (j + n - writePos rb)
             else buffer rb ! j))"
proof -
  let ?wp = "writePos rb" and ?L = "length d"
  have ns: "\<not> isSpecialTestCase d rb" using assms(1,6) by (simp add: isSpecialTestCase_def)
  have no: "\<not> ?L > getAvailableSpace rb" "\<not> ?L > size_rb rb" using assms by simp_all
  have lt2: "?wp + ?L < 2 * n" using assms by simp
  show ?thesis
  proof (cases "?L \<le> n - ?wp")
    case True
    let ?b = "copy d (buffer rb) ?wp 0 ?L"
    have w: "(?wp + ?L) mod n = (if ?wp + ?L = n then 0 else ?wp + ?L)"
      using True assms(3,4) by (auto simp: mod_lt2 [OF lt2])
    have e: "RingBuffer_write d rb
           = (True, rb\<lparr>buffer := ?b,
                        writePos := (?wp + ?L) mod n,
                        filled := (filled rb \<or> ((?wp + ?L) mod n = readPos rb \<and> 0 < ?L))\<rparr>)"
      using True ns no assms(1) w
      by (auto simp: RingBuffer_write_def Let_def)
    have n: "\<forall>j < n. ?b ! j =
            (if ?wp \<le> j \<and> j < ?wp + ?L then d ! (j - ?wp)
             else if j + n < ?wp + ?L then d ! (j + n - ?wp)
             else buffer rb ! j)"
    proof (intro allI impI)
      fix j assume j: "j < n"
      have "?b ! j = (if ?wp \<le> j \<and> j - ?wp < min (?L - 0) (length d - 0) then d ! (0 + (j - ?wp))
                      else buffer rb ! j)"
        using j assms(2) by (intro copy_nth) simp
      moreover have "\<not> j + n < ?wp + ?L" using True assms(4) by arith
      moreover have "(?wp \<le> j \<and> j - ?wp < ?L) = (?wp \<le> j \<and> j < ?wp + ?L)" by arith
      ultimately show "?b ! j =
            (if ?wp \<le> j \<and> j < ?wp + ?L then d ! (j - ?wp)
             else if j + n < ?wp + ?L then d ! (j + n - ?wp)
             else buffer rb ! j)"
        by simp
    qed
    show ?thesis using e n assms(2) by (intro exI [of _ ?b]) simp
  next
    case False
    let ?es = "n - ?wp"
    let ?b1 = "copy d (buffer rb) ?wp 0 ?es"
    let ?b = "copy d ?b1 0 ?es ?L"
    have w: "(?wp + ?L) mod n = ?L - ?es"
      using False assms(3,4,8) by (auto simp: mod_lt2 [OF lt2])
    have ne: "?L - ?es \<noteq> n" using assms(4,8) False by arith
    have e: "RingBuffer_write d rb
           = (True, rb\<lparr>buffer := ?b,
                        writePos := (?wp + ?L) mod n,
                        filled := (filled rb \<or> ((?wp + ?L) mod n = readPos rb \<and> 0 < ?L))\<rparr>)"
      using False ns no assms(1) ne unfolding w
      by (auto simp: RingBuffer_write_def Let_def)
    have n: "\<forall>j < n. ?b ! j =
            (if ?wp \<le> j \<and> j < ?wp + ?L then d ! (j - ?wp)
             else if j + n < ?wp + ?L then d ! (j + n - ?wp)
             else buffer rb ! j)"
    proof (intro allI impI)
      fix j assume j: "j < n"
      have i1: "?b1 ! j = (if ?wp \<le> j \<and> j - ?wp < min (?es - 0) (length d - 0) then d ! (0 + (j - ?wp))
                      else buffer rb ! j)"
        using j assms(2) by (intro copy_nth) simp
      have i2: "?b ! j = (if 0 \<le> j \<and> j - 0 < min (?L - ?es) (length d - ?es) then d ! (?es + (j - 0))
                      else ?b1 ! j)"
        using j assms(2) by (intro copy_nth) simp
      show "?b ! j =
            (if ?wp \<le> j \<and> j < ?wp + ?L then d ! (j - ?wp)
             else if j + n < ?wp + ?L then d ! (j + n - ?wp)
             else buffer rb ! j)"
      proof (cases "j + n < ?wp + ?L")
        case True
        then have "j < ?L - ?es" using assms(4) by arith
        moreover have "\<not> ?wp \<le> j" using True assms(8) by arith
        moreover have "?es + j = j + n - ?wp" using assms(4) by arith
        ultimately show ?thesis using i2 True by simp
      next
        case nw: False
        then have "\<not> j < ?L - ?es" using assms(4) by arith
        then have "?b ! j = ?b1 ! j" using i2 by simp
        moreover have "(?wp \<le> j \<and> j - ?wp < min ?es ?L) = (?wp \<le> j \<and> j < ?wp + ?L)"
          using j False by arith
        ultimately show ?thesis using i1 nw by simp
      qed
    qed
    show ?thesis using e n assms(2) by (intro exI [of _ ?b]) simp
  qed
qed


lemma rb_write:
  assumes "rb_inv n rb c" "n \<noteq> 10" "length d \<le> n - length c"
  shows "\<exists>rb'. RingBuffer_write d rb = (True, rb') \<and> rb_inv n rb' (c @ d)"
proof (cases "n = 0")
  case True
  then have "d = []" "c = []" using assms by (auto simp: rb_inv_def)
  then show ?thesis
    using assms(1) True
    by (auto simp: rb_inv_def RingBuffer_write_def isSpecialTestCase_def getAvailableSpace_def
          Let_def copy_def)
next
  case False
  then have n: "0 < n" by simp
  let ?rp = "readPos rb" and ?wp = "writePos rb" and ?L = "length d" and ?C = "length c"
  have f: "size_rb rb = n" "length (buffer rb) = n" "?C \<le> n" "?rp < n"
    "?wp = (?rp + ?C) mod n" "filled rb \<longleftrightarrow> ?C = n"
    and old: "\<And>i. i < ?C \<Longrightarrow> buffer rb ! ((?rp + i) mod n) = c ! i"
    using assms(1) n by (auto simp: rb_inv_def)
  have wpn: "?wp < n" using f(5) n by simp
  have wp: "?wp = (if ?rp + ?C < n then ?rp + ?C else ?rp + ?C - n)"
  proof -
    have "?rp + ?C < 2 * n" using f(3,4) by arith
    then show ?thesis unfolding f(5) by (rule mod_lt2)
  qed
  have free: "getAvailableSpace rb = n - ?C" using assms(1) by (rule rb_free)
  have Ln: "?L \<le> n" using assms(3) by simp
  obtain b where e: "RingBuffer_write d rb
           = (True, rb\<lparr>buffer := b, writePos := (?wp + ?L) mod n,
                        filled := (filled rb \<or> ((?wp + ?L) mod n = ?rp \<and> 0 < ?L))\<rparr>)"
    and lb: "length b = n"
    and nb: "\<And>j. j < n \<Longrightarrow> b ! j =
            (if ?wp \<le> j \<and> j < ?wp + ?L then d ! (j - ?wp)
             else if j + n < ?wp + ?L then d ! (j + n - ?wp)
             else buffer rb ! j)"
    using rb_write_state [OF f(1) f(2) n wpn f(4) assms(2) _ Ln, of ] assms(3) free by auto
  let ?rb' = "rb\<lparr>buffer := b, writePos := (?wp + ?L) mod n,
                        filled := (filled rb \<or> ((?wp + ?L) mod n = ?rp \<and> 0 < ?L))\<rparr>"
  have w': "(?wp + ?L) mod n = (?rp + (?C + ?L)) mod n"
    unfolding f(5) by (simp add: mod_add_left_eq add.assoc)
  have w'': "(?rp + (?C + ?L)) mod n
               = (if ?rp + (?C + ?L) < n then ?rp + (?C + ?L) else ?rp + (?C + ?L) - n)"
  proof -
    have "?rp + (?C + ?L) < 2 * n" using f(3,4) assms(3) by arith
    then show ?thesis by (rule mod_lt2)
  qed
  have fl: "(filled rb \<or> ((?wp + ?L) mod n = ?rp \<and> 0 < ?L)) \<longleftrightarrow> ?C + ?L = n"
    unfolding w' w'' using f(3,4,6) assms(3) by auto
  have content: "b ! ((?rp + i) mod n) = (c @ d) ! i" if i: "i < ?C + ?L" for i
  proof -
    let ?p = "(?rp + i) mod n"
    have p: "?p = (if ?rp + i < n then ?rp + i else ?rp + i - n)"
    proof -
      have "?rp + i < 2 * n" using f(3,4) i assms(3) by arith
      then show ?thesis by (rule mod_lt2)
    qed
    have pn: "?p < n" using n by simp
    show ?thesis
    proof (cases "i < ?C")
      case True
      have "\<not> (?wp \<le> ?p \<and> ?p < ?wp + ?L)" "\<not> ?p + n < ?wp + ?L"
        unfolding p wp using True f(3,4) assms(3) by (auto split: if_splits)
      then have "b ! ?p = buffer rb ! ?p" using nb [OF pn] by auto
      then show ?thesis using old [OF True] True by (simp add: nth_append)
    next
      case False
      then have t: "i - ?C < ?L" using i by arith
      have "(?wp \<le> ?p \<and> ?p < ?wp + ?L \<and> ?p - ?wp = i - ?C) \<or>
            (\<not> (?wp \<le> ?p \<and> ?p < ?wp + ?L) \<and> ?p + n < ?wp + ?L \<and> ?p + n - ?wp = i - ?C)"
        unfolding p wp using False i f(3,4) assms(3) by (auto split: if_splits)
      then have "b ! ?p = d ! (i - ?C)" using nb [OF pn] by auto
      then show ?thesis using False by (simp add: nth_append)
    qed
  qed
  have "rb_inv n ?rb' (c @ d)"
    unfolding rb_inv_def using f lb n assms(3) w' fl content by simp
  then show ?thesis using e by blast
qed


lemma length_readBytes [simp]: "length (readBytes k rb) = k"
  by (simp add: readBytes_def Let_def)

lemma readBytes_nth:
  assumes "size_rb rb = n" "length (buffer rb) = n" "readPos rb < n" "k \<le> n" "i < k"
  shows "readBytes k rb ! i = buffer rb ! ((readPos rb + i) mod n)"
proof -
  let ?rp = "readPos rb" and ?E = "n - readPos rb"
  have m: "(?rp + i) mod n = (if ?rp + i < n then ?rp + i else ?rp + i - n)"
  proof -
    have "?rp + i < 2 * n" using assms by arith
    then show ?thesis by (rule mod_lt2)
  qed
  show ?thesis
  proof (cases "k \<le> ?E")
    case True
    have e: "readBytes k rb = copy (buffer rb) (replicate k 0) 0 ?rp (?rp + k)"
      using True assms(1) by (simp add: readBytes_def Let_def)
    have "i < length (replicate k (0::byte))" using assms(5) by simp
    from copy_nth [OF this, of "buffer rb" 0 ?rp "?rp + k"]
    have "copy (buffer rb) (replicate k 0) 0 ?rp (?rp + k) ! i = buffer rb ! (?rp + i)"
      using True assms by (simp add: min_def)
    moreover have "?rp + i < n" using True assms by arith
    ultimately show ?thesis unfolding e m by simp
  next
    case False
    let ?inner = "copy (buffer rb) (replicate k 0) 0 ?rp n"
    have e: "readBytes k rb = copy (buffer rb) ?inner ?E 0 (k - ?E)"
      using False assms(1) by (simp add: readBytes_def Let_def)
    have li: "i < length ?inner" using assms(5) by simp
    have o: "copy (buffer rb) ?inner ?E 0 (k - ?E) ! i =
               (if ?E \<le> i \<and> i - ?E < min (k - ?E - 0) (length (buffer rb) - 0)
                then buffer rb ! (0 + (i - ?E)) else ?inner ! i)"
      by (rule copy_nth [OF li])
    show ?thesis
    proof (cases "?E \<le> i")
      case True
      have "i - ?E < min (k - ?E - 0) (length (buffer rb) - 0)"
        using True assms by (simp add: min_def) arith
      then have "copy (buffer rb) ?inner ?E 0 (k - ?E) ! i = buffer rb ! (i - ?E)"
        using o True by simp
      moreover have "\<not> ?rp + i < n" "?rp + i - n = i - ?E" using True assms by arith+
      ultimately show ?thesis unfolding e m by simp
    next
      case nE: False
      then have "copy (buffer rb) ?inner ?E 0 (k - ?E) ! i = ?inner ! i"
        using o by simp
      moreover have "i < length (replicate k (0::byte))" using assms(5) by simp
      from copy_nth [OF this, of "buffer rb" 0 ?rp n]
      have "?inner ! i = buffer rb ! (?rp + i)"
        using nE assms by (simp add: min_def)
      moreover have "?rp + i < n" using nE assms by arith
      ultimately show ?thesis unfolding e m by simp
    qed
  qed
qed

lemma rb_read:
  assumes "rb_inv n rb c" "n \<noteq> 10" "k \<le> length c" "length c = n \<Longrightarrow> k = n"
  shows "\<exists>rb'. read k rb = (Some (take k c), rb') \<and> rb_inv n rb' (drop k c)"
proof (cases "n = 0")
  case True
  then have "c = []" "k = 0" using assms by (auto simp: rb_inv_def)
  then show ?thesis
    using assms(1) True
    by (auto simp: rb_inv_def read_def getAvailableData_def readBytes_def Let_def copy_def)
next
  case False
  then have n: "0 < n" by simp
  let ?rp = "readPos rb" and ?wp = "writePos rb" and ?C = "length c"
  have f: "size_rb rb = n" "length (buffer rb) = n" "?C \<le> n" "?rp < n"
    "?wp = (?rp + ?C) mod n" "filled rb \<longleftrightarrow> ?C = n"
    and old: "\<And>i. i < ?C \<Longrightarrow> buffer rb ! ((?rp + i) mod n) = c ! i"
    using assms(1) n by (auto simp: rb_inv_def)
  have kn: "k \<le> n" using assms(3) f(3) by simp
  have wp: "?wp = (if ?rp + ?C < n then ?rp + ?C else ?rp + ?C - n)"
  proof -
    have "?rp + ?C < 2 * n" using f(3,4) by arith
    then show ?thesis unfolding f(5) by (rule mod_lt2)
  qed
  have rk: "(?rp + k) mod n = (if ?rp + k < n then ?rp + k else ?rp + k - n)"
  proof -
    have "?rp + k < 2 * n" using f(4) kn by arith
    then show ?thesis by (rule mod_lt2)
  qed
  have used: "getAvailableData rb = ?C" using assms(1,2) by (rule rb_used)
  have bytes: "readBytes k rb = take k c"
  proof (rule nth_equalityI)
    show "length (readBytes k rb) = length (take k c)" using assms(3) by simp
  next
    fix i assume "i < length (readBytes k rb)"
    then have i: "i < k" by simp
    then have "readBytes k rb ! i = buffer rb ! ((?rp + i) mod n)"
      using readBytes_nth [OF f(1) f(2) f(4) kn] by simp
    also have "\<dots> = c ! i" using old i assms(3) by simp
    finally show "readBytes k rb ! i = take k c ! i" using i by simp
  qed
  let ?rb' = "rb\<lparr>readPos := (?rp + k) mod n, filled := False\<rparr>"
  let ?rb'' = "rb\<lparr>readPos := (?rp + k) mod n\<rparr>"
  have meet: "(?rp + k) mod n = ?wp \<longleftrightarrow> (k = ?C \<or> (?C = n \<and> k = 0))"
    unfolding rk wp using f(3,4) assms(3) by (auto split: if_splits)
  have st: "read k rb = (Some (readBytes k rb), if (?rp + k) mod n = ?wp then ?rb' else ?rb'')"
    unfolding rk using f(1,4) kn assms(3) used
    by (auto simp: read_def Let_def)
  show ?thesis
  proof (cases "(?rp + k) mod n = ?wp")
    case True
    then have kc: "k = ?C" using meet assms(4) n by auto
    have "rb_inv n ?rb' (drop k c)"
      unfolding rb_inv_def using f n kc by (simp add: mod_add_left_eq)
    then show ?thesis using st True bytes by simp
  next
    case nm: False
    then have kc: "k < ?C" "?C < n" using meet assms(3,4) f(3) by auto
    have cont: "buffer rb ! (((?rp + k) mod n + i) mod n) = drop k c ! i" if "i < ?C - k" for i
    proof -
      have "((?rp + k) mod n + i) mod n = (?rp + (k + i)) mod n"
        by (simp add: mod_add_left_eq add.assoc)
      moreover have "k + i < ?C" using that by arith
      ultimately show ?thesis using old [of "k + i"] assms(3) by simp
    qed
    have w: "?wp = ((?rp + k) mod n + (?C - k)) mod n"
    proof -
      have "((?rp + k) mod n + (?C - k)) mod n = (?rp + k + (?C - k)) mod n"
        by (rule mod_add_left_eq)
      moreover have "?rp + k + (?C - k) = ?rp + ?C" using assms(3) by arith
      ultimately show ?thesis unfolding f(5) by simp
    qed
    have lt: "?C - k \<le> n" "?C - k \<noteq> n" using kc by arith+
    have "rb_inv n ?rb'' (drop k c)"
      unfolding rb_inv_def using f(1-4,6) n kc cont w lt by simp
    then show ?thesis using st nm bytes by simp
  qed
qed

lemma rb_readAll:
  assumes "rb_inv n rb c" "n \<noteq> 10"
  shows "\<exists>rb'. readAll rb = (c, rb') \<and> rb_inv n rb' []"
proof (cases "c = []")
  case True
  then show ?thesis using assms rb_used [OF assms] by (simp add: readAll_def)
next
  case False
  have "length c = n \<Longrightarrow> length c = n" .
  from rb_read [OF assms, of "length c"]
  obtain rb' where "read (length c) rb = (Some (take (length c) c), rb')"
    "rb_inv n rb' (drop (length c) c)" by auto
  then show ?thesis using False rb_used [OF assms] by (simp add: readAll_def)
qed

lemma rb_run:
  "rb_inv n rb q \<Longrightarrow> n \<noteq> 10 \<Longrightarrow> within_free_space n ops q
     \<Longrightarrow> rb_inv n (run_ops ops rb) (unread_bytes ops q)"
proof (induction ops arbitrary: rb q)
  case Nil
  then show ?case by simp
next
  case (Cons op ops)
  show ?case
  proof (cases op)
    case (OpWrite d)
    then have d: "length d \<le> n - length q" "within_free_space n ops (q @ d)" using Cons.prems(3) by simp_all
    obtain rb' where "RingBuffer_write d rb = (True, rb')" "rb_inv n rb' (q @ d)"
      using rb_write [OF Cons.prems(1,2) d(1)] by blast
    then show ?thesis using Cons.IH [OF _ Cons.prems(2) d(2)] OpWrite by simp
  next
    case (OpRead k)
    then have k: "k \<le> length q" "length q = n \<Longrightarrow> k = n" "within_free_space n ops (drop k q)"
      using Cons.prems(3) by simp_all
    obtain rb' where "read k rb = (Some (take k q), rb')" "rb_inv n rb' (drop k q)"
      using rb_read [OF Cons.prems(1,2) k(1,2)] by blast
    then show ?thesis using Cons.IH [OF _ Cons.prems(2) k(3)] OpRead by simp
  qed
qed

text \<open>
  Conservation on the general path: for a capacity other than 10 and a sequence of
  \<open>within_free_space\<close> run on a new buffer, used and free space add up to the capacity
  and \<^verbatim>\<open>readAll()\<close> returns the unread bytes in write order. Every prefix of such a
  sequence is one, so this holds after every operation.
\<close>

theorem ring_buffer_conservation_general_path:
  assumes "n \<noteq> 10" "within_free_space n ops []"
  shows "getUsedSpace (run_ops ops (RingBuffer_new n))
           + getFreeSpace (run_ops ops (RingBuffer_new n)) = n
         \<and> fst (readAll (run_ops ops (RingBuffer_new n))) = unread_bytes ops []"
proof -
  let ?rb = "run_ops ops (RingBuffer_new n)"
  have i: "rb_inv n ?rb (unread_bytes ops [])" using rb_new assms by (rule rb_run)
  then have "length (unread_bytes ops []) \<le> n" by (simp add: rb_inv_def)
  then have "getUsedSpace ?rb + getFreeSpace ?rb = n"
    using rb_used [OF i assms(1)] rb_free [OF i] by (simp add: getUsedSpace_def getFreeSpace_def)
  moreover have "fst (readAll ?rb) = unread_bytes ops []"
    using rb_readAll [OF i assms(1)] by auto
  ultimately show ?thesis by simp
qed

text \<open>A sequence that wraps around the end of a region of four bytes.\<close>

lemma ring_buffer_conservation_general_path_example:
  "within_free_space 4 [OpWrite [1, 2, 3], OpRead 2, OpWrite [4, 5, 6], OpRead 4, OpWrite [7]] [] \<and>
   fst (readAll (run_ops [OpWrite [1, 2, 3], OpRead 2, OpWrite [4, 5, 6], OpRead 4, OpWrite [7]]
                   (RingBuffer_new 4))) = [7]"
  using ring_buffer_conservation_general_path
          [of 4 "[OpWrite [1, 2, 3], OpRead 2, OpWrite [4, 5, 6], OpRead 4, OpWrite [7]]"]
  by simp

text \<open>
  The condition on reads of a full buffer is needed. \<^verbatim>\<open>read\<close> clears the flag \<^verbatim>\<open>filled\<close>
  only when the cursors meet after the read. A read of two bytes from a full buffer of
  capacity 5 returns them and leaves the flag set: five bytes still count as used, none
  as free, and \<^verbatim>\<open>readAll()\<close> returns the three unread bytes followed by the two bytes
  already consumed.
\<close>

lemma ring_buffer_partial_read_of_full_buffer:
  "(let rb1 = snd (RingBuffer_write [1, 2, 3, 4, 5] (RingBuffer_new 5));
        (r, rb2) = read 2 rb1
    in r = Some [1, 2] \<and> getUsedSpace rb2 = 5 \<and> getFreeSpace rb2 = 0 \<and>
       fst (readAll rb2) = [3, 4, 5, 1, 2])"
  by code_simp

text \<open>
  A read of no bytes from a full buffer finds the cursors equal and clears the flag: the
  buffer then counts as empty, and the five unread bytes are not returned.
\<close>

lemma ring_buffer_empty_read_of_full_buffer:
  "(let rb1 = snd (RingBuffer_write [1, 2, 3, 4, 5] (RingBuffer_new 5));
        (r, rb2) = read 0 rb1
    in r = Some [] \<and> getUsedSpace rb2 = 0 \<and> getFreeSpace rb2 = 5 \<and>
       fst (readAll rb2) = [])"
  by code_simp

section \<open>Results: redaction\<close>











section \<open>Results: metrics aggregator\<close>

text \<open>
  Claim C4, as the code has it: \<^verbatim>\<open>getSnapshot()\<close> ends with \<^verbatim>\<open>reset()\<close>, which clears the
  per-level counts, the total, error and dropped counts, the duration samples and the
  error-signature table, and also the throughput window and the maximum throughput. The
  snapshot that is returned reports the maximum as it was before the reset.
\<close>

theorem getSnapshot_resets_everything:
  "counts (snd (getSnapshot now now' m)) = (\<lambda>_. 0) \<and>
   totalCount (snd (getSnapshot now now' m)) = 0 \<and>
   errorCount (snd (getSnapshot now now' m)) = 0 \<and>
   droppedCount (snd (getSnapshot now now' m)) = 0 \<and>
   durations (snd (getSnapshot now now' m)) = [] \<and>
   errorMessages (snd (getSnapshot now now' m)) = [] \<and>
   throughputWindow (snd (getSnapshot now now' m)) = [] \<and>
   maxThroughput (snd (getSnapshot now now' m)) = 0 \<and>
   throughputMax (fst (getSnapshot now now' m)) = maxThroughput m"
  by (simp add: getSnapshot_def reset_def Let_def)

text \<open>
  The claim as the specification states it, that the maximum survives the snapshot, fails
  after a single recorded entry: the maximum is 1 before \<^verbatim>\<open>getSnapshot()\<close> and 0 after.
\<close>

theorem getSnapshot_max_throughput_counterexample:
  "maxThroughput (recordLog 1000 [(''level'', JStr ''info''), (''time'', JNum 1000)]
                    (MetricsAggregator_new 0)) = 1 \<and>
   maxThroughput (snd (getSnapshot 2000 2000
                    (recordLog 1000 [(''level'', JStr ''info''), (''time'', JNum 1000)]
                       (MetricsAggregator_new 0))))
     \<noteq> maxThroughput (recordLog 1000 [(''level'', JStr ''info''), (''time'', JNum 1000)]
                         (MetricsAggregator_new 0))"
  by (simp add: getSnapshot_def reset_def recordLog_def MetricsAggregator_new_def
        lookupProp_def Let_def levelOfName_def allLevels_def)

section \<open>Results: logger core\<close>

subsection \<open>The test logger is what the constructor builds\<close>

lemma testLogger_from_constructor:
  "Logger_new testEnv 0
     \<lparr>o_level = Some l, o_name = None, o_pretty = None, o_timestamp = None, o_hostname = None,
      o_pid = None, o_transports = Some 0, o_context = None, o_redact = Some ks,
      o_filter = None, o_sampling = None, o_rateLimit = None, o_metrics = None\<rparr>
     \<lparr>nextRef = 1, arrays = (\<lambda>_. [])(0 := ts), objects = (\<lambda>_. []), stores = (\<lambda>_. None)\<rparr>
   = Inr (testLogger l ks, testWorld ts)"
  by (simp add: Logger_new_def fillOptions_def allocObject_def allocStore_def orDefault_def
        testLogger_def testWorld_def testEnv_def Let_def fun_eq_iff)

subsection \<open>Entry construction\<close>

lemma setProp_map_of: "map_of (setProp k v ps) = (map_of ps)(k \<mapsto> v)"
  by (simp add: setProp_def update_conv')

lemma assign_map_of: "map_of (assign t s) = map_of t ++ map_of (rev s)"
proof (induction s arbitrary: t)
  case Nil
  then show ?case by (simp add: assign_def)
next
  case (Cons p s)
  obtain k v where p: "p = (k, v)" by (cases p)
  have "map_of (assign t (p # s)) = map_of (assign (setProp k v t) s)"
    by (simp add: assign_def p)
  also have "\<dots> = map_of (setProp k v t) ++ map_of (rev s)" by (rule Cons.IH)
  also have "\<dots> = map_of t ++ map_of (rev (p # s))"
    by (simp add: setProp_map_of p map_add_upd_left ext)
  finally show ?case .
qed


lemma withMsg_map_of: "k \<noteq> ''msg'' \<Longrightarrow> map_of (withMsg msg e) k = map_of e k"
  by (simp add: withMsg_def setProp_map_of split: option.splits)

lemma redactProps_map_of:
  "map_of (redactProps ks ps) k = map_option (redactField ks k) (map_of ps k)"
  by (induction ps) (auto simp: redactProps_def)




subsection \<open>Level gate\<close>












text \<open>
  The entry keeps the level of the call whenever no context object and no argument
  carries a key \<open>level\<close> and that key is not redacted.
\<close>

lemma assign_other_key:
  "k \<notin> fst ` set s \<Longrightarrow> map_of (assign t s) k = map_of t k"
  by (simp add: assign_map_of map_add_def map_of_eq_None_iff [THEN iffD2] split: option.splits)

lemma pipelineEntry_level:
  assumes "''level'' \<notin> fst ` set (objects w (opt_context (options lg)))"
    and "\<And>c. stores w (contextStorage lg) = Some c \<Longrightarrow> ''level'' \<notin> fst ` set (objects w c)"
  shows "map_of (pipelineEntry lg w L now) ''level'' = Some (JStr (levelName L))"
  using assms
  by (auto simp: pipelineEntry_def Let_def assign_other_key setProp_map_of split: option.splits)

lemma entry_keeps_level:
  assumes "''level'' \<notin> fst ` set (objects w (opt_context (options lg)))"
    and "\<And>c. stores w (contextStorage lg) = Some c \<Longrightarrow> ''level'' \<notin> fst ` set (objects w c)"
    and "''level'' \<notin> fst ` set (ownProps obj)"
    and "''level'' \<notin> set (opt_redact (options lg))"
  shows "lookupProp (createLogEntry lg w L obj msg now) ''level'' = JStr (levelName L)"
proof -
  have p: "map_of (pipelineEntry lg w L now) ''level'' = Some (JStr (levelName L))"
    using assms(1,2) by (rule pipelineEntry_level)
  have b: "map_of (buildEntry lg w L obj msg now) ''level'' = Some (JStr (levelName L))"
    using p assms(3)
    by (simp add: buildEntry_def Let_def withMsg_map_of setProp_map_of assign_other_key)
  show ?thesis
    using b assms(4)
    by (simp add: createLogEntry_def redactSensitive_def redactProps_map_of lookupProp_def
          redactField_def)
qed

text \<open>The end-to-end scenario of the specification: level info, redaction of
  \<open>password\<close>, the call \<^verbatim>\<open>info({user: 'a', password: 'x'}, 'login')\<close>.\<close>

lemma end_to_end_scenario:
  "sinkWrites (snd (Logger_log (testLogger Info [''password'']) (testWorld [testSink 7 CloseReturns])
                      Info (JObj [(''user'', JStr ''a''), (''password'', JStr ''x'')])
                      (Some ''login'') 5))
     = [(7, [(''level'', JStr ''info''), (''time'', JNum 5), (''user'', JStr ''a''),
             (''password'', JStr ''[REDACTED]''), (''msg'', JStr ''login'')])]"
  by (simp add: Logger_log_def sampleGate_def rateGate_def createLogEntry_def buildEntry_def
        pipelineEntry_def redactSensitive_def redactProps_def redactField_def withMsg_def
        Logger_write_def writeOne_def shouldLogValue_def levelOfName_def allLevels_def
        shouldLog_def lookupProp_def assign_def setProp_def testLogger_def testWorld_def
        testSink_def orDefault_def)

subsection \<open>Child loggers\<close>

lemma child_result:
  assumes "child env now c lg w = Inr (ch, w1)"
  shows "transports ch = transports lg"
    and "opt_context (options ch) = nextRef w"
    and "contextStorage ch = nextRef w + 1"
    and "w1 = w\<lparr>nextRef := nextRef w + 2,
               objects := (objects w)(nextRef w :=
                  assign (assign [] (objects w (opt_context (options lg)))) c),
               stores := (stores w)(nextRef w + 1 := None)\<rparr>"
    and "opt_level (options ch) = opt_level (options lg)"
    and "opt_redact (options ch) = opt_redact (options lg)"
  using assms
  by (auto simp: child_def Logger_new_def fillOptions_def childOptions_def allocObject_def
        allocStore_def orDefault_def Let_def split: if_splits sum.splits)

text \<open>
  Claim C1, as the code has it. The logger that \<^verbatim>\<open>child(c)\<close> returns uses the parent's
  transport array itself, and the call changes no array. Its ambient-context storage is a
  new one, idle, and not the parent's: the constructor makes an \<^verbatim>\<open>AsyncLocalStorage\<close> for
  every logger. Its bound context is a new object holding the parent's bound context
  overlaid with \<open>c\<close>; no context object that existed before the call changes, neither the
  parent's nor a sibling's, and the same holds after a further \<^verbatim>\<open>child()\<close> call on the child.
\<close>

theorem child_shares_sinks_not_store:
  assumes "child env now c lg w = Inr (ch, w1)"
  shows "transports ch = transports lg \<and> arrays w1 = arrays w \<and>
         (contextStorage lg < nextRef w \<longrightarrow> contextStorage ch \<noteq> contextStorage lg) \<and>
         stores w1 (contextStorage ch) = None \<and>
         (opt_context (options lg) < nextRef w \<longrightarrow>
            opt_context (options ch) \<noteq> opt_context (options lg)) \<and>
         objects w1 (opt_context (options ch))
           = assign (assign [] (objects w (opt_context (options lg)))) c \<and>
         (\<forall>r. r < nextRef w \<longrightarrow> objects w1 r = objects w r) \<and>
         (\<forall>now' c' gc w2. child env now' c' ch w1 = Inr (gc, w2) \<longrightarrow>
            transports gc = transports lg \<and>
            (\<forall>r. r < nextRef w \<longrightarrow> objects w2 r = objects w r))"
proof -
  note r = child_result [OF assms]
  have nested: "transports gc = transports lg \<and> (\<forall>r. r < nextRef w \<longrightarrow> objects w2 r = objects w r)"
    if "child env now' c' ch w1 = Inr (gc, w2)" for now' c' gc w2
  proof -
    note r2 = child_result [OF that]
    show ?thesis unfolding r2(4) r2(1) r(1) r(4) by simp
  qed
  show ?thesis
    using nested unfolding r(1) r(2) r(3) r(4) by auto
qed

theorem child_shares_sinks_not_store_witness:
  "(case child testEnv 0 [(''service'', JStr ''api'')] (testLogger Info []) (testWorld [testSink 7 CloseReturns]) of
      Inl e \<Rightarrow> False
    | Inr (ch, w1) \<Rightarrow>
        transports ch = 0 \<and> contextStorage ch = 4 \<and> opt_context (options ch) = 3 \<and>
        objects w1 3 = [(''service'', JStr ''api'')] \<and> objects w1 1 = [])"
proof -
  obtain ch w1 where c: "child testEnv 0 [(''service'', JStr ''api'')] (testLogger Info [])
                           (testWorld [testSink 7 CloseReturns]) = Inr (ch, w1)"
    by (simp add: child_def Logger_new_def fillOptions_def childOptions_def allocObject_def
          allocStore_def orDefault_def Let_def testLogger_def)
  have n: "nextRef (testWorld [testSink 7 CloseReturns]) = 3"
    "objects (testWorld [testSink 7 CloseReturns]) = (\<lambda>_. [])"
    by (simp_all add: testWorld_def)
  have t: "transports (testLogger Info []) = 0" "opt_context (options (testLogger Info [])) = 1"
    by (simp_all add: testLogger_def)
  have "contextStorage ch = 4" "opt_context (options ch) = 3"
    using child_result(2,3) [OF c] by (simp_all add: n)
  then show ?thesis
    using child_shares_sinks_not_store [OF c] unfolding c
    by (simp add: n t assign_def setProp_def)
qed

text \<open>
  The claim as the specification states it, that the child shares the parent's
  ambient-context store, fails: the two storages differ, and inside
  \<^verbatim>\<open>parent.withContext({requestId: 'abc'}, ...)\<close> an entry logged by the parent carries
  \<open>requestId\<close> while an entry logged by the child does not.
\<close>

theorem child_own_context_store_counterexample:
  "(case child testEnv 0 [(''service'', JStr ''api'')] (testLogger Info []) (testWorld [testSink 7 CloseReturns]) of
      Inl e \<Rightarrow> False
    | Inr (ch, w1) \<Rightarrow>
        contextStorage ch \<noteq> contextStorage (testLogger Info []) \<and>
        (case allocObject [(''requestId'', JStr ''abc'')] w1 of (rq, w2) \<Rightarrow>
           fst (withContext (testLogger Info []) rq
                  (\<lambda>w. (sinkWrites (snd (Logger_log (testLogger Info []) w Info (JStr ''hi'') None 5)), w)) w2)
             = [(7, [(''level'', JStr ''info''), (''time'', JNum 5), (''requestId'', JStr ''abc''),
                     (''msg'', JStr ''hi'')])] \<and>
           fst (withContext (testLogger Info []) rq
                  (\<lambda>w. (sinkWrites (snd (Logger_log ch w Info (JStr ''hi'') None 5)), w)) w2)
             = [(7, [(''level'', JStr ''info''), (''time'', JNum 5), (''service'', JStr ''api''),
                     (''msg'', JStr ''hi'')])]))"
  by (simp add: child_def Logger_new_def fillOptions_def childOptions_def allocObject_def
        allocStore_def orDefault_def Let_def testLogger_def testWorld_def testSink_def testEnv_def
        withContext_def Logger_log_def sampleGate_def rateGate_def createLogEntry_def
        buildEntry_def pipelineEntry_def redactSensitive_def Logger_write_def writeOne_def
        shouldLogValue_def levelOfName_def allLevels_def shouldLog_def lookupProp_def
        assign_def setProp_def)

subsection \<open>Close\<close>

lemma invokeCloses_no_throw:
  assumes "\<forall>t \<in> set ts. \<forall>e. t_close t \<noteq> CloseThrows e"
  shows "invokeCloses ts
           = (map t_id (filter (\<lambda>t. t_close t \<noteq> NoCloseMethod) ts), map t_close ts, None)"
  using assms by (induction ts) (auto split: close_behaviour.splits)

lemma firstRejection_None:
  "firstRejection rs = None \<longleftrightarrow> (\<forall>e a. CloseRejects e a \<notin> set rs)"
  by (induction rs rule: firstRejection.induct) (auto split: option.splits)

lemma firstRejection_Some:
  "firstRejection rs = Some (a, e) \<Longrightarrow> CloseRejects e a \<in> set rs"
  by (induction rs arbitrary: a e rule: firstRejection.induct)
     (auto split: option.splits if_splits)

lemma promiseAll_Fulfilled: "promiseAll rs = Fulfilled \<longleftrightarrow> (\<forall>e a. CloseRejects e a \<notin> set rs)"
  by (auto simp: promiseAll_def firstRejection_None [symmetric] split: option.splits)

lemma promiseAll_Rejected: "promiseAll rs = Rejected e \<Longrightarrow> \<exists>a. CloseRejects e a \<in> set rs"
  by (auto simp: promiseAll_def split: option.splits dest: firstRejection_Some)

text \<open>
  Claim C5, as the code has it. When no transport's \<^verbatim>\<open>close\<close> throws synchronously,
  \<^verbatim>\<open>Logger.close()\<close> calls \<^verbatim>\<open>close\<close> on every transport that has the method, in order, and its
  promise fulfils exactly when no transport's promise rejects; when one rejects,
  \<^verbatim>\<open>Logger.close()\<close> rejects with the reason of a rejecting transport (\<^verbatim>\<open>Promise.all\<close> is
  fail-fast).
\<close>

theorem close_is_fail_fast:
  assumes "\<forall>t \<in> set (arrays w (transports lg)). \<forall>e. t_close t \<noteq> CloseThrows e"
  shows "fst (snd (Logger_close lg w))
           = map t_id (filter (\<lambda>t. t_close t \<noteq> NoCloseMethod) (arrays w (transports lg))) \<and>
         (fst (Logger_close lg w) = Fulfilled \<longleftrightarrow>
            (\<forall>t \<in> set (arrays w (transports lg)). \<forall>e a. t_close t \<noteq> CloseRejects e a)) \<and>
         (\<forall>e. fst (Logger_close lg w) = Rejected e \<longrightarrow>
            (\<exists>t \<in> set (arrays w (transports lg)). \<exists>a. t_close t = CloseRejects e a))"
proof -
  let ?ts = "arrays w (transports lg)"
  have c: "Logger_close lg w
             = (promiseAll (map t_close ?ts),
                map t_id (filter (\<lambda>t. t_close t \<noteq> NoCloseMethod) ?ts),
                lg\<lparr>metricsInterval := False\<rparr>)"
    by (simp add: Logger_close_def invokeCloses_no_throw [OF assms])
  have f: "promiseAll (map t_close ?ts) = Fulfilled \<longleftrightarrow>
             (\<forall>t \<in> set ?ts. \<forall>e a. t_close t \<noteq> CloseRejects e a)"
    unfolding promiseAll_Fulfilled by (auto simp: image_iff) (metis)+
  have r: "\<exists>t \<in> set ?ts. \<exists>a. t_close t = CloseRejects e a"
    if "promiseAll (map t_close ?ts) = Rejected e" for e
    using promiseAll_Rejected [OF that] by (auto simp: image_iff) metis
  show ?thesis unfolding c using f r by simp
qed

theorem close_is_fail_fast_witness:
  "fst (snd (Logger_close (testLogger Info [])
               (testWorld [testSink 7 (CloseResolves 0), testSink 8 (CloseRejects ''disk full'' 3),
                           testSink 9 NoCloseMethod, testSink 10 CloseReturns]))) = [7, 8, 10] \<and>
   fst (Logger_close (testLogger Info [])
               (testWorld [testSink 7 (CloseResolves 0), testSink 8 (CloseRejects ''disk full'' 3),
                           testSink 9 NoCloseMethod, testSink 10 CloseReturns])) \<noteq> Fulfilled"
proof -
  let ?w = "testWorld [testSink 7 (CloseResolves 0), testSink 8 (CloseRejects ''disk full'' 3),
                           testSink 9 NoCloseMethod, testSink 10 CloseReturns]"
  have a: "arrays ?w (transports (testLogger Info []))
             = [testSink 7 (CloseResolves 0), testSink 8 (CloseRejects ''disk full'' 3),
                testSink 9 NoCloseMethod, testSink 10 CloseReturns]"
    by (simp add: testWorld_def testLogger_def)
  have h: "\<forall>t \<in> set (arrays ?w (transports (testLogger Info []))). \<forall>e. t_close t \<noteq> CloseThrows e"
    unfolding a by (simp add: testSink_def)
  show ?thesis
    using close_is_fail_fast [OF h] unfolding a by (simp add: testSink_def)
qed

text \<open>
  The claim as the specification states it, that \<^verbatim>\<open>close()\<close> still resolves when a sink's
  \<^verbatim>\<open>close\<close> rejects, fails with two sinks of which the first rejects: both are closed, and
  \<^verbatim>\<open>close()\<close> rejects with the first sink's reason.
\<close>

theorem close_rejects_counterexample:
  "Logger_close (testLogger Info [])
     (testWorld [testSink 7 (CloseRejects ''disk full'' 0), testSink 8 (CloseResolves 0)])
   = (Rejected ''disk full'', [7, 8], testLogger Info [])"
  by (simp add: Logger_close_def promiseAll_def testWorld_def testLogger_def testSink_def)

text \<open>A \<^verbatim>\<open>close\<close> that throws instead of returning a rejected promise also keeps the later
  sinks from being closed.\<close>

lemma close_sync_throw_skips_later_sinks:
  "Logger_close (testLogger Info [])
     (testWorld [testSink 7 (CloseThrows ''boom''), testSink 8 (CloseResolves 0)])
   = (Rejected ''boom'', [7], testLogger Info [])"
  by (simp add: Logger_close_def promiseAll_def testWorld_def testLogger_def testSink_def)

section \<open>Results: safe serializer\<close>


















text \<open>The repository's test: \<^verbatim>\<open>{"a":1,"self":"[Circular]"}\<close>.\<close>

lemma stringify_self_reference:
  "stringify selfRefHeap None 16 (HRef 0)
     = Returned (''{'' @ quoteJSON ''a'' @ '':1,'' @ quoteJSON ''self'' @ '':''
                  @ quoteJSON ''[Circular]'' @ ''}'')"
  by code_simp



text \<open>A \<^verbatim>\<open>Set\<close> that contains itself is unfolded until the stack is exhausted; the
  result is the sentinel, not the marker.\<close>

lemma stringify_self_containing_set:
  "stringify selfSetHeap None 16 (HRef 0)
     = Returned ''[Stringify Error: Maximum call stack size exceeded]''"
  by code_simp

text \<open>Two inputs on which \<^verbatim>\<open>stringify\<close> does not return a string: \<^verbatim>\<open>undefined\<close>, for which
  \<^verbatim>\<open>JSON.stringify\<close> returns \<^verbatim>\<open>undefined\<close>, and a replacer that throws \<^verbatim>\<open>null\<close>, on which
  the \<^verbatim>\<open>catch\<close> block itself throws.\<close>

lemma stringify_undefined:
  "stringify h None (Suc d) HUndefined = ReturnedUndefined"
  by (simp add: stringify_def applyReplacer_def toJSONStep_def builtinReplace_def
        primResult_def serPrim_def)

lemma stringify_replacer_throws_null:
  "stringify h (Some (\<lambda>k v. Inl ThrowNullish)) (Suc d) obj = Threw"
  by (simp add: stringify_def applyReplacer_def)

end
